theory Spec2Isabelle
  imports Complex_Main "HOL-Library.Sublist"
begin

section \<open>Python values and primitives used by push\_to\_dash.py\<close>

text \<open>
  A Python float is a finite real, an infinity or a NaN. The program never computes with
  the sensor floats, it only moves them, so the finite ones are kept as reals.
\<close>

datatype pyfloat = Finite real | PosInf | NegInf | NaN

text \<open>The exceptions the modelled code can raise.\<close>

datatype exn = IndexError | ValueError | OSError

text \<open>
  Sequencing of computations that may raise: the first exception ends the computation.
\<close>

definition ebind :: "exn + 'a \<Rightarrow> ('a \<Rightarrow> exn + 'b) \<Rightarrow> exn + 'b" where
  "ebind m f = (case m of Inl e \<Rightarrow> Inl e | Inr a \<Rightarrow> f a)"

text \<open>
  Characters are code points below 256. \<open>str.strip()\<close> and the regular expression class
  \<open>\s\<close> use the same whitespace test: 0x09-0x0D, 0x1C-0x20, 0x85 and 0xA0.
\<close>

definition is_space :: "char \<Rightarrow> bool" where
  "is_space c = (let n = (of_char c :: nat) in
     (9 \<le> n \<and> n \<le> 13) \<or> (28 \<le> n \<and> n \<le> 32) \<or> n = 133 \<or> n = 160)"

text \<open>\<open>s.strip()\<close>\<close>

definition strip :: "string \<Rightarrow> string" where
  "strip s = rev (dropWhile is_space (rev (dropWhile is_space s)))"

text \<open>The separator class \<open>[\s,]\<close> of \<open>re.split(r'[\s,]+', ...)\<close>.\<close>

definition is_sep :: "char \<Rightarrow> bool" where
  "is_sep c = (is_space c \<or> c = CHR '','')"

text \<open>
  \<open>re.split(r'[\s,]+', s)\<close>: the pieces between maximal runs of separators. A run at the
  start or at the end of \<open>s\<close> gives an empty first or last piece, and the empty string
  gives one empty piece. \<open>cur\<close> is the piece being read (reversed), \<open>in_sep\<close> says that the
  previous character was a separator.
\<close>

fun re_split_from :: "string \<Rightarrow> bool \<Rightarrow> string \<Rightarrow> string list" where
  "re_split_from cur in_sep [] = [rev cur]"
| "re_split_from cur in_sep (c # cs) =
     (if is_sep c then
        (if in_sep then re_split_from [] True cs
         else rev cur # re_split_from [] True cs)
      else re_split_from (c # cur) False cs)"

definition re_split :: "string \<Rightarrow> string list" where
  "re_split s = re_split_from [] False s"

text \<open>\<open>p.startswith(token)\<close>\<close>

fun startswith :: "string \<Rightarrow> string \<Rightarrow> bool" where
  "startswith s [] = True"
| "startswith [] (t # ts) = False"
| "startswith (c # cs) (t # ts) = (c = t \<and> startswith cs ts)"

text \<open>\<open>sub in s\<close> for strings: \<open>sub\<close> occurs in \<open>s\<close> as a contiguous substring.\<close>

fun str_contains :: "string \<Rightarrow> string \<Rightarrow> bool" where
  "str_contains sub [] = (sub = [])"
| "str_contains sub (c # cs) = (startswith (c # cs) sub \<or> str_contains sub cs)"

text \<open>\<open>parts.index(x)\<close>: the first position of \<open>x\<close>, ValueError when there is none.\<close>

fun list_index :: "string list \<Rightarrow> string \<Rightarrow> exn + int" where
  "list_index [] x = Inl ValueError"
| "list_index (p # ps) x =
     (if p = x then Inr 0 else ebind (list_index ps x) (\<lambda>i. Inr (i + 1)))"

text \<open>\<open>parts[i]\<close>: negative indices count from the end, out of range raises IndexError.\<close>

definition py_get :: "string list \<Rightarrow> int \<Rightarrow> exn + string" where
  "py_get parts i =
     (let n = int (length parts); j = (if i < 0 then n + i else i)
      in if 0 \<le> j \<and> j < n then Inr (parts ! nat j) else Inl IndexError)"

text \<open>
  \<open>float(s)\<close> is a builtin. The model takes it as a parameter \<open>pf\<close>, answering \<open>None\<close>
  where \<open>float\<close> raises ValueError, so every theorem holds for whatever strings Python
  accepts as numbers.
\<close>

definition py_float :: "(string \<Rightarrow> pyfloat option) \<Rightarrow> string \<Rightarrow> exn + pyfloat" where
  "py_float pf s = (case pf s of None \<Rightarrow> Inl ValueError | Some v \<Rightarrow> Inr v)"

text \<open>
  For concrete examples: \<open>float\<close> on plain decimal literals, an optional minus sign, digits
  and an optional fraction part (\<open>21\<close>, \<open>-3\<close>, \<open>21.5\<close>). Python accepts more (exponents,
  \<open>inf\<close>, \<open>nan\<close>, underscores); the examples use no such token.
\<close>

definition digit_val :: "char \<Rightarrow> nat option" where
  "digit_val c = (let n = (of_char c :: nat) in
     if 48 \<le> n \<and> n \<le> 57 then Some (n - 48) else None)"

fun digits_val :: "nat \<Rightarrow> string \<Rightarrow> nat option" where
  "digits_val acc [] = Some acc"
| "digits_val acc (c # cs) =
     (case digit_val c of None \<Rightarrow> None | Some d \<Rightarrow> digits_val (10 * acc + d) cs)"

definition unsigned_decimal :: "string \<Rightarrow> real option" where
  "unsigned_decimal s =
     (let ip = takeWhile (\<lambda>c. c \<noteq> CHR ''.'') s; rest = dropWhile (\<lambda>c. c \<noteq> CHR ''.'') s in
      if ip = [] then None
      else case digits_val 0 ip of
        None \<Rightarrow> None
      | Some i \<Rightarrow>
         (case rest of
            [] \<Rightarrow> Some (real i)
          | _ # fp \<Rightarrow>
             (if fp = [] then None
              else case digits_val 0 fp of
                None \<Rightarrow> None
              | Some f \<Rightarrow> Some (real i + real f / 10 ^ length fp))))"

definition decimal_float :: "string \<Rightarrow> pyfloat option" where
  "decimal_float s =
     (case s of
        [] \<Rightarrow> None
      | c # cs \<Rightarrow>
         (if c = CHR ''-'' then map_option (\<lambda>r. Finite (- r)) (unsigned_decimal cs)
          else map_option Finite (unsigned_decimal s)))"

section \<open>LineParser: \<open>_idx_token\<close> and \<open>parse_telem_line\<close>\<close>

text \<open>
  \<open>_idx_token(parts, token)\<close>: the index of the first part that equals \<open>token\<close> or starts
  with it, -1 when there is none. \<open>i\<close> is the counter of \<open>enumerate\<close>.
\<close>

fun idx_token_from :: "int \<Rightarrow> string list \<Rightarrow> string \<Rightarrow> int" where
  "idx_token_from i [] token = - 1"
| "idx_token_from i (p # ps) token =
     (if p = token \<or> startswith p token then i else idx_token_from (i + 1) ps token)"

definition idx_token :: "string list \<Rightarrow> string \<Rightarrow> int" where
  "idx_token parts token = idx_token_from 0 parts token"

text \<open>The nested dictionaries of a reading.\<close>

record ms5611_reading =
  temp :: pyfloat
  pressure :: pyfloat
  altitude :: pyfloat

record mpu6050_reading =
  gx :: pyfloat
  gy :: pyfloat
  gz :: pyfloat
  ax :: pyfloat
  ay :: pyfloat
  az :: pyfloat

text \<open>
  The dictionary \<open>data\<close> that \<open>parse_telem_line\<close> builds has at most the keys \<open>tmp\<close>,
  \<open>gps\<close>, \<open>ms5611\<close> and \<open>mpu6050\<close>: a field is \<open>None\<close> when the key is absent.
\<close>

record parsed =
  d_tmp :: "pyfloat option"
  d_gps :: "(pyfloat \<times> pyfloat \<times> pyfloat) option"
  d_ms5611 :: "ms5611_reading option"
  d_mpu6050 :: "mpu6050_reading option"

definition empty_data :: parsed where
  "empty_data = \<lparr>d_tmp = None, d_gps = None, d_ms5611 = None, d_mpu6050 = None\<rparr>"

text \<open>
  \<open>try: ... except (IndexError, ValueError): pass\<close> around a block that updates \<open>data\<close>:
  each block assigns to \<open>data\<close> once, as its last action, so a caught exception leaves
  \<open>data\<close> as it was before the block.
\<close>

definition try_except :: "parsed \<Rightarrow> exn + parsed \<Rightarrow> exn + parsed" where
  "try_except data blk =
     (case blk of
        Inr data' \<Rightarrow> Inr data'
      | Inl e \<Rightarrow> (if e = IndexError \<or> e = ValueError then Inr data else Inl e))"

text \<open>\<open>float(parts[i])\<close>\<close>

definition float_at :: "(string \<Rightarrow> pyfloat option) \<Rightarrow> string list \<Rightarrow> int \<Rightarrow> exn + pyfloat" where
  "float_at pf parts i = ebind (py_get parts i) (py_float pf)"

text \<open>Lines 124-127: the TMP block.\<close>

definition tmp_block :: "(string \<Rightarrow> pyfloat option) \<Rightarrow> string list \<Rightarrow> parsed \<Rightarrow> exn + parsed" where
  "tmp_block pf parts data =
     (if ''TMP'' \<in> set parts then
        ebind (list_index parts ''TMP'') (\<lambda>idx.
          if idx + 1 < int (length parts) then
            ebind (float_at pf parts (idx + 1)) (\<lambda>v. Inr (data\<lparr>d_tmp := Some v\<rparr>))
          else Inr data)
      else Inr data)"

text \<open>Lines 132-139: the GPS block.\<close>

definition gps_block :: "(string \<Rightarrow> pyfloat option) \<Rightarrow> string list \<Rightarrow> parsed \<Rightarrow> exn + parsed" where
  "gps_block pf parts data =
     (if ''GPS'' \<in> set parts then
        ebind (list_index parts ''GPS'') (\<lambda>idx.
          if idx + 3 \<le> int (length parts) then
            ebind (float_at pf parts (idx + 1)) (\<lambda>a.
            ebind (float_at pf parts (idx + 2)) (\<lambda>b.
            ebind (float_at pf parts (idx + 3)) (\<lambda>c.
              Inr (data\<lparr>d_gps := Some (a, b, c)\<rparr>))))
          else Inr data)
      else Inr data)"

text \<open>
  Lines 144-160: the MS5611 block. The \<open>else\<close> branch reads \<open>data.get('tmp', 0.0)\<close> and
  \<open>data.get('gps', (0.0, 0.0, 0.0))[2]\<close>, the fields the two blocks above left in \<open>data\<close>
  for this line.
\<close>

definition ms5611_block :: "(string \<Rightarrow> pyfloat option) \<Rightarrow> string list \<Rightarrow> parsed \<Rightarrow> exn + parsed" where
  "ms5611_block pf parts data =
     (let idx = idx_token parts ''MS5611'' in
      if idx \<ge> 0 then
        (if idx + 3 \<le> int (length parts) then
           ebind (float_at pf parts (idx + 1)) (\<lambda>t.
           ebind (float_at pf parts (idx + 2)) (\<lambda>p.
           ebind (float_at pf parts (idx + 3)) (\<lambda>a.
             Inr (data\<lparr>d_ms5611 := Some \<lparr>temp = t, pressure = p, altitude = a\<rparr>\<rparr>))))
         else
           (let temp = (case d_tmp data of Some v \<Rightarrow> v | None \<Rightarrow> Finite 0);
                gps = (case d_gps data of Some g \<Rightarrow> g | None \<Rightarrow> (Finite 0, Finite 0, Finite 0))
            in Inr (data\<lparr>d_ms5611 :=
                 Some \<lparr>temp = temp, pressure = Finite 1013.25, altitude = snd (snd gps)\<rparr>\<rparr>)))
      else Inr data)"

text \<open>Lines 165-175: the MPU6050 block.\<close>

definition mpu6050_block :: "(string \<Rightarrow> pyfloat option) \<Rightarrow> string list \<Rightarrow> parsed \<Rightarrow> exn + parsed" where
  "mpu6050_block pf parts data =
     (if ''MPU6050'' \<in> set parts then
        ebind (list_index parts ''MPU6050'') (\<lambda>idx.
          if idx + 6 \<le> int (length parts) then
            ebind (float_at pf parts (idx + 1)) (\<lambda>v1.
            ebind (float_at pf parts (idx + 2)) (\<lambda>v2.
            ebind (float_at pf parts (idx + 3)) (\<lambda>v3.
            ebind (float_at pf parts (idx + 4)) (\<lambda>v4.
            ebind (float_at pf parts (idx + 5)) (\<lambda>v5.
            ebind (float_at pf parts (idx + 6)) (\<lambda>v6.
              Inr (data\<lparr>d_mpu6050 :=
                Some \<lparr>gx = v1, gy = v2, gz = v3, ax = v4, ay = v5, az = v6\<rparr>\<rparr>)))))))
          else Inr data)
      else Inr data)"

text \<open>
  \<open>parse_telem_line(line)\<close>: the four guarded blocks in source order over the tokens of
  the stripped line. \<open>Inl\<close> would be an exception that escapes to the caller.
\<close>

definition parse_parts :: "(string \<Rightarrow> pyfloat option) \<Rightarrow> string list \<Rightarrow> exn + parsed" where
  "parse_parts pf parts =
     ebind (try_except empty_data (tmp_block pf parts empty_data)) (\<lambda>d1.
     ebind (try_except d1 (gps_block pf parts d1)) (\<lambda>d2.
     ebind (try_except d2 (ms5611_block pf parts d2)) (\<lambda>d3.
     try_except d3 (mpu6050_block pf parts d3))))"

definition parse_telem_line :: "(string \<Rightarrow> pyfloat option) \<Rightarrow> string \<Rightarrow> exn + parsed" where
  "parse_telem_line pf line = parse_parts pf (re_split (strip line))"

section \<open>SnapshotStore: \<open>latest_telemetry\<close> and its lock\<close>

record system_reading =
  cpu :: pyfloat
  gpu_temp :: pyfloat

record telemetry =
  status :: string
  timestamp :: "string option"
  ms5611 :: ms5611_reading
  mpu6050 :: mpu6050_reading
  tmp :: pyfloat
  system :: system_reading

text \<open>Lines 62-72: the snapshot at process start.\<close>

definition latest_telemetry :: telemetry where
  "latest_telemetry =
     \<lparr>status = ''offline'', timestamp = None,
      ms5611 = \<lparr>temp = Finite 0, pressure = Finite 0, altitude = Finite 0\<rparr>,
      mpu6050 = \<lparr>gx = Finite 0, gy = Finite 0, gz = Finite 0,
                 ax = Finite 0, ay = Finite 0, az = Finite 0\<rparr>,
      tmp = Finite 0,
      system = \<lparr>cpu = Finite 0, gpu_temp = Finite 0\<rparr>\<rparr>"

text \<open>
  The bodies of the \<open>with lock:\<close> blocks of \<open>telemetry_reader\<close> that write the snapshot.
  Each block runs with the lock held, so it is one atomic step for every other thread;
  the lock is released between two blocks.
\<close>

datatype locked =
    Set_system system_reading
  | Set_status string string
  | Set_ms5611 ms5611_reading
  | Set_mpu6050 mpu6050_reading
  | Set_tmp pyfloat

fun with_lock :: "locked \<Rightarrow> telemetry \<Rightarrow> telemetry" where
  "with_lock (Set_system v) t = t\<lparr>system := v\<rparr>"
| "with_lock (Set_status s ts) t = t\<lparr>status := s, timestamp := Some ts\<rparr>"
| "with_lock (Set_ms5611 v) t = t\<lparr>ms5611 := v\<rparr>"
| "with_lock (Set_mpu6050 v) t = t\<lparr>mpu6050 := v\<rparr>"
| "with_lock (Set_tmp v) t = t\<lparr>tmp := v\<rparr>"

definition run_locked :: "locked list \<Rightarrow> telemetry \<Rightarrow> telemetry" where
  "run_locked us t = foldl (\<lambda>s u. with_lock u s) t us"

text \<open>
  A piece of the reader's code: the locked blocks it has run, in order, and then either
  the exception that ended it or its value.
\<close>

type_synonym 'a run = "locked list \<times> (exn + 'a)"

definition locked_block :: "locked \<Rightarrow> unit run" where
  "locked_block u = ([u], Inr ())"

definition unlocked :: "exn + 'a \<Rightarrow> 'a run" where
  "unlocked r = ([], r)"

definition rbind :: "'a run \<Rightarrow> ('a \<Rightarrow> 'b run) \<Rightarrow> 'b run" where
  "rbind m f =
     (case m of
        (us, Inl e) \<Rightarrow> (us, Inl e)
      | (us, Inr a) \<Rightarrow> (case f a of (vs, r) \<Rightarrow> (us @ vs, r)))"

section \<open>IngestLoop: one iteration of \<open>telemetry_reader\<close>\<close>

definition STALE_TIMEOUT :: real where
  "STALE_TIMEOUT = 120"

definition GIST_PUSH_INTERVAL :: real where
  "GIST_PUSH_INTERVAL = 5"

definition GIST_ID :: string where
  "GIST_ID = ''5da070ed5aa3c9b8268eaac884b4a199''"

text \<open>
  What one iteration reads from outside the program, in the order of the calls:
  \<open>psutil.cpu_percent\<close>, \<open>get_gpu_temp()\<close>, \<open>os.path.exists\<close>, \<open>time.time()\<close> of line 283,
  \<open>os.path.getmtime\<close>, \<open>open(...).readlines()\<close>, \<open>datetime.now(timezone.utc).isoformat()\<close>
  and \<open>time.time()\<close> of line 332. The two file calls may raise.
\<close>

record env =
  cpu_percent :: pyfloat
  gpu_temp_read :: pyfloat
  path_exists :: bool
  time_at_age :: real
  getmtime :: "exn + real"
  readlines :: "exn + string list"
  utc_now_iso :: string
  time_at_push :: real

text \<open>
  Lines 294-306: the scan over \<open>reversed(lines)\<close>. The triple is
  \<open>(last_ms5611, last_mpu6050, last_tmp)\<close>; returning it without a recursive call is the
  \<open>break\<close>.
\<close>

fun scan_lines :: "string list \<Rightarrow> string \<times> string \<times> string \<Rightarrow> string \<times> string \<times> string" where
  "scan_lines [] acc = acc"
| "scan_lines (line # rest) (last_ms5611, last_mpu6050, last_tmp) =
     (let stripped = strip line in
      if stripped = [] then scan_lines rest (last_ms5611, last_mpu6050, last_tmp)
      else
        (let ms = (if str_contains ''MS5611'' stripped \<and> last_ms5611 = []
                   then stripped else last_ms5611);
             mpu = (if str_contains ''MPU6050'' stripped \<and> last_mpu6050 = []
                    then stripped else last_mpu6050);
             tm = (if str_contains ''TMP'' stripped \<and> last_tmp = []
                   then stripped else last_tmp)
         in if ms \<noteq> [] \<and> mpu \<noteq> [] \<and> tm \<noteq> [] then (ms, mpu, tm)
            else scan_lines rest (ms, mpu, tm)))"

definition select_lines :: "string list \<Rightarrow> string \<times> string \<times> string" where
  "select_lines lines = scan_lines (rev lines) ([], [], [])"

text \<open>Lines 311-315, 316-320 and 321-325.\<close>

definition merge_ms5611 :: "(string \<Rightarrow> pyfloat option) \<Rightarrow> string \<Rightarrow> unit run" where
  "merge_ms5611 pf last_ms5611 =
     (if last_ms5611 \<noteq> [] then
        rbind (unlocked (parse_telem_line pf last_ms5611)) (\<lambda>parsed.
          case d_ms5611 parsed of
            Some v \<Rightarrow> locked_block (Set_ms5611 v)
          | None \<Rightarrow> unlocked (Inr ()))
      else unlocked (Inr ()))"

definition merge_mpu6050 :: "(string \<Rightarrow> pyfloat option) \<Rightarrow> string \<Rightarrow> unit run" where
  "merge_mpu6050 pf last_mpu6050 =
     (if last_mpu6050 \<noteq> [] then
        rbind (unlocked (parse_telem_line pf last_mpu6050)) (\<lambda>parsed.
          case d_mpu6050 parsed of
            Some v \<Rightarrow> locked_block (Set_mpu6050 v)
          | None \<Rightarrow> unlocked (Inr ()))
      else unlocked (Inr ()))"

definition merge_tmp :: "(string \<Rightarrow> pyfloat option) \<Rightarrow> string \<Rightarrow> unit run" where
  "merge_tmp pf last_tmp =
     (if last_tmp \<noteq> [] then
        rbind (unlocked (parse_telem_line pf last_tmp)) (\<lambda>parsed.
          case d_tmp parsed of
            Some v \<Rightarrow> locked_block (Set_tmp v)
          | None \<Rightarrow> unlocked (Inr ()))
      else unlocked (Inr ()))"

text \<open>
  Lines 273-329: the body of the \<open>try\<close> up to the publication step. An exception ends it
  where it is raised; the locked blocks run before it have already written the snapshot.
\<close>

definition ingest :: "(string \<Rightarrow> pyfloat option) \<Rightarrow> env \<Rightarrow> unit run" where
  "ingest pf e =
     rbind (locked_block (Set_system \<lparr>cpu = cpu_percent e, gpu_temp = gpu_temp_read e\<rparr>)) (\<lambda>_.
       if path_exists e then
         rbind (unlocked (getmtime e)) (\<lambda>mtime.
           let file_age = time_at_age e - mtime in
           if file_age > STALE_TIMEOUT then
             locked_block (Set_status ''stale'' (utc_now_iso e))
           else
             rbind (unlocked (readlines e)) (\<lambda>lines.
               case select_lines lines of (last_ms5611, last_mpu6050, last_tmp) \<Rightarrow>
                 rbind (locked_block (Set_status ''live'' (utc_now_iso e))) (\<lambda>_.
                 rbind (merge_ms5611 pf last_ms5611) (\<lambda>_.
                 rbind (merge_mpu6050 pf last_mpu6050) (\<lambda>_.
                 merge_tmp pf last_tmp)))))
       else locked_block (Set_status ''no_file'' (utc_now_iso e)))"

section \<open>RelayPublisher: the publication step and \<open>push_to_gist\<close>\<close>

text \<open>What an iteration does to the outside: files written, network calls, log lines.\<close>

datatype effect =
    Write_local_json telemetry
  | Gist_patch string telemetry
  | Reader_error exn

text \<open>
  Lines 182-210 of \<open>push_to_gist\<close>: no network call without a token, otherwise one PATCH
  with the authorization header and the snapshot. A failed call is logged there and
  raises nothing.
\<close>

definition push_to_gist :: "string \<Rightarrow> telemetry \<Rightarrow> effect list" where
  "push_to_gist github_token data =
     (if github_token = [] \<or> GIST_ID = [] then []
      else
        (let token = strip github_token in
         if token = [] then []
         else
           (let auth = (if startswith token ''Bearer '' \<or> startswith token ''token ''
                        then token else ''Bearer '' @ token)
            in [Gist_patch auth data])))"

text \<open>Lines 218-227, with \<open>WRITE_LOCAL_JSON = True\<close>.\<close>

definition write_local_json :: "telemetry \<Rightarrow> effect list" where
  "write_local_json data = [Write_local_json data]"

text \<open>The state of the reader thread: the shared snapshot and its local \<open>last_gist_push\<close>.\<close>

record reader =
  telem :: telemetry
  last_gist_push :: real

definition reader_start :: reader where
  "reader_start = \<lparr>telem = latest_telemetry, last_gist_push = 0\<rparr>"

text \<open>
  One iteration of the \<open>while True\<close> loop (lines 272-342), \<open>github_token\<close> being the module
  constant \<open>GITHUB_TOKEN\<close>: the ingestion, then the publication (lines 332-339), which an
  exception skips. The handler of line 341 logs the exception and the loop goes on.
\<close>

definition reader_cycle ::
  "string \<Rightarrow> (string \<Rightarrow> pyfloat option) \<Rightarrow> env \<Rightarrow> reader \<Rightarrow> reader \<times> effect list" where
  "reader_cycle github_token pf e st =
     (case ingest pf e of (us, r) \<Rightarrow>
        (let t = run_locked us (telem st) in
         case r of
           Inl ex \<Rightarrow> (st\<lparr>telem := t\<rparr>, [Reader_error ex])
         | Inr _ \<Rightarrow>
            (let now = time_at_push e; snapshot = t in
             if github_token \<noteq> [] \<and> now - last_gist_push st \<ge> GIST_PUSH_INTERVAL
             then (\<lparr>telem = t, last_gist_push = now\<rparr>,
                   write_local_json snapshot @ push_to_gist github_token snapshot)
             else (st\<lparr>telem := t\<rparr>, write_local_json snapshot))))"


section \<open>QueryService: reads of the snapshot while the reader runs\<close>

text \<open>
  Lines 351-353: \<open>do_GET\<close> takes the lock and serialises the whole snapshot, so a
  request reads the snapshot as it is between two locked blocks of the reader thread.
  A schedule says which thread takes the lock next, the reader for its next locked block
  or a request for its read. \<open>interleave sch us t\<close> runs the locked blocks \<open>us\<close> of one
  ingestion from the snapshot \<open>t\<close> under the schedule \<open>sch\<close> and returns what the
  requests read, in order; any number of requests may be scheduled.
\<close>

datatype lock_holder = Reader_block | Get_request

fun interleave :: "lock_holder list \<Rightarrow> locked list \<Rightarrow> telemetry \<Rightarrow> telemetry list" where
  "interleave [] us t = []"
| "interleave (Get_request # sch) us t = t # interleave sch us t"
| "interleave (Reader_block # sch) [] t = interleave sch [] t"
| "interleave (Reader_block # sch) (u # us) t = interleave sch us (with_lock u t)"

text \<open>Which field group a locked block writes.\<close>

fun sets_system :: "locked \<Rightarrow> bool" where
  "sets_system (Set_system v) = True"
| "sets_system u = False"

fun sets_status :: "locked \<Rightarrow> bool" where
  "sets_status (Set_status s ts) = True"
| "sets_status u = False"

fun sets_ms5611 :: "locked \<Rightarrow> bool" where
  "sets_ms5611 (Set_ms5611 v) = True"
| "sets_ms5611 u = False"

fun sets_mpu6050 :: "locked \<Rightarrow> bool" where
  "sets_mpu6050 (Set_mpu6050 v) = True"
| "sets_mpu6050 u = False"

fun sets_tmp :: "locked \<Rightarrow> bool" where
  "sets_tmp (Set_tmp v) = True"
| "sets_tmp u = False"

section \<open>Reference descriptions used in the statements\<close>

text \<open>
  The definitions of this section are not translations of the source. They describe, in
  the vocabulary of the specification, what the code is proved to compute.

  \<open>leading_floats pf n ts\<close>: the floats of the first \<open>n\<close> tokens of \<open>ts\<close>, when there
  are \<open>n\<close> tokens and each of them is numeric.
\<close>

fun leading_floats :: "(string \<Rightarrow> pyfloat option) \<Rightarrow> nat \<Rightarrow> string list \<Rightarrow> pyfloat list option" where
  "leading_floats pf 0 ts = Some []"
| "leading_floats pf (Suc n) [] = None"
| "leading_floats pf (Suc n) (t # ts) =
     (case pf t of None \<Rightarrow> None | Some v \<Rightarrow> map_option ((#) v) (leading_floats pf n ts))"

text \<open>\<open>tokens_after P parts\<close>: the tokens that follow the first token satisfying \<open>P\<close>.\<close>

fun tokens_after :: "(string \<Rightarrow> bool) \<Rightarrow> string list \<Rightarrow> string list option" where
  "tokens_after P [] = None"
| "tokens_after P (p # ps) = (if P p then Some ps else tokens_after P ps)"

text \<open>
  The four fields of a line, by marker: the first token equal to \<open>TMP\<close>, \<open>GPS\<close> or
  \<open>MPU6050\<close>, the first token that begins with \<open>MS5611\<close>, and the tokens after it.
\<close>

definition tmp_field :: "(string \<Rightarrow> pyfloat option) \<Rightarrow> string list \<Rightarrow> pyfloat option" where
  "tmp_field pf parts =
     (case tokens_after (\<lambda>p. p = ''TMP'') parts of
        None \<Rightarrow> None
      | Some post \<Rightarrow> (case leading_floats pf 1 post of Some [v] \<Rightarrow> Some v | _ \<Rightarrow> None))"

definition gps_field ::
  "(string \<Rightarrow> pyfloat option) \<Rightarrow> string list \<Rightarrow> (pyfloat \<times> pyfloat \<times> pyfloat) option" where
  "gps_field pf parts =
     (case tokens_after (\<lambda>p. p = ''GPS'') parts of
        None \<Rightarrow> None
      | Some post \<Rightarrow>
         (case leading_floats pf 3 post of Some [a, b, c] \<Rightarrow> Some (a, b, c) | _ \<Rightarrow> None))"

definition mpu6050_field ::
  "(string \<Rightarrow> pyfloat option) \<Rightarrow> string list \<Rightarrow> mpu6050_reading option" where
  "mpu6050_field pf parts =
     (case tokens_after (\<lambda>p. p = ''MPU6050'') parts of
        None \<Rightarrow> None
      | Some post \<Rightarrow>
         (case leading_floats pf 6 post of
            Some [v1, v2, v3, v4, v5, v6] \<Rightarrow>
              Some \<lparr>gx = v1, gy = v2, gz = v3, ax = v4, ay = v5, az = v6\<rparr>
          | _ \<Rightarrow> None))"

definition substitute_ms5611 ::
  "pyfloat option \<Rightarrow> (pyfloat \<times> pyfloat \<times> pyfloat) option \<Rightarrow> ms5611_reading" where
  "substitute_ms5611 tmp_opt gps_opt =
     \<lparr>temp = (case tmp_opt of Some v \<Rightarrow> v | None \<Rightarrow> Finite 0),
      pressure = Finite 1013.25,
      altitude = (case gps_opt of Some (x, y, z) \<Rightarrow> z | None \<Rightarrow> Finite 0)\<rparr>"

definition ms5611_field ::
  "(string \<Rightarrow> pyfloat option) \<Rightarrow> string list \<Rightarrow> ms5611_reading option" where
  "ms5611_field pf parts =
     (case tokens_after (\<lambda>p. startswith p ''MS5611'') parts of
        None \<Rightarrow> None
      | Some post \<Rightarrow>
         (if 3 \<le> length post then
            (case leading_floats pf 3 post of
               Some [t, p, a] \<Rightarrow> Some \<lparr>temp = t, pressure = p, altitude = a\<rparr>
             | _ \<Rightarrow> None)
          else if length post = 2 then None
          else Some (substitute_ms5611 (tmp_field pf parts) (gps_field pf parts))))"

text \<open>
  \<open>recent_line marker lines\<close>: the most recent line of the file, stripped, in which
  \<open>marker\<close> occurs as a substring.
\<close>

definition recent_line :: "string \<Rightarrow> string list \<Rightarrow> string option" where
  "recent_line marker lines = find (str_contains marker) (rev (map strip lines))"

text \<open>
  The reading of each of the three field groups that a live cycle takes from the file:
  the group's field of the most recent line containing the group's marker.
\<close>

definition selected_ms5611 ::
  "(string \<Rightarrow> pyfloat option) \<Rightarrow> string list \<Rightarrow> ms5611_reading option" where
  "selected_ms5611 pf lines =
     (case recent_line ''MS5611'' lines of
        None \<Rightarrow> None
      | Some l \<Rightarrow> ms5611_field pf (re_split (strip l)))"

definition selected_mpu6050 ::
  "(string \<Rightarrow> pyfloat option) \<Rightarrow> string list \<Rightarrow> mpu6050_reading option" where
  "selected_mpu6050 pf lines =
     (case recent_line ''MPU6050'' lines of
        None \<Rightarrow> None
      | Some l \<Rightarrow> mpu6050_field pf (re_split (strip l)))"

definition selected_tmp :: "(string \<Rightarrow> pyfloat option) \<Rightarrow> string list \<Rightarrow> pyfloat option" where
  "selected_tmp pf lines =
     (case recent_line ''TMP'' lines of
        None \<Rightarrow> None
      | Some l \<Rightarrow> tmp_field pf (re_split (strip l)))"

text \<open>An optional value as a list of at most one element.\<close>

definition opt_list :: "'a option \<Rightarrow> 'a list" where
  "opt_list x = (case x of None \<Rightarrow> [] | Some v \<Rightarrow> [v])"

text \<open>\<open>or_else x d\<close>: the value of \<open>x\<close> when there is one, \<open>d\<close> otherwise.\<close>

definition or_else :: "'a option \<Rightarrow> 'a \<Rightarrow> 'a" where
  "or_else x d = (case x of None \<Rightarrow> d | Some v \<Rightarrow> v)"

text \<open>
  \<open>pick acc m ls\<close>: the selection for marker \<open>m\<close> after scanning \<open>ls\<close> (most recent line
  first), \<open>acc\<close> being the selection made so far: the first stripped line of \<open>ls\<close> that
  contains \<open>m\<close>, unless a line was selected before.
\<close>

definition pick :: "string \<Rightarrow> string \<Rightarrow> string list \<Rightarrow> string" where
  "pick acc m ls = (if acc \<noteq> [] then acc
     else (case find (str_contains m) (map strip ls) of None \<Rightarrow> [] | Some l \<Rightarrow> l))"

section \<open>Inputs of the examples\<close>

text \<open>
  For concrete examples: the readings of an iteration that finds the file, ten seconds
  old, and reads \<open>lines\<close> from it; \<open>ts\<close> is the time stamp and \<open>now\<close> the clock.
\<close>

definition live_env :: "string list \<Rightarrow> string \<Rightarrow> real \<Rightarrow> env" where
  "live_env lines ts now =
     \<lparr>cpu_percent = Finite 3, gpu_temp_read = Finite 40, path_exists = True,
      time_at_age = now, getmtime = Inr (now - 10), readlines = Inr lines,
      utc_now_iso = ts, time_at_push = now\<rparr>"

text \<open>The readings of an iteration that finds the file 200 seconds old.\<close>

definition stale_env :: "string \<Rightarrow> real \<Rightarrow> env" where
  "stale_env ts now =
     \<lparr>cpu_percent = Finite 3, gpu_temp_read = Finite 40, path_exists = True,
      time_at_age = now, getmtime = Inr (now - 200), readlines = Inr [],
      utc_now_iso = ts, time_at_push = now\<rparr>"

text \<open>
  The readings of an iteration that finds the file, ten seconds old, and fails to read
  it (\<open>open\<close> or \<open>readlines\<close> raises).
\<close>

definition unreadable_env :: "string \<Rightarrow> real \<Rightarrow> env" where
  "unreadable_env ts now =
     \<lparr>cpu_percent = Finite 3, gpu_temp_read = Finite 40, path_exists = True,
      time_at_age = now, getmtime = Inr (now - 10), readlines = Inl OSError,
      utc_now_iso = ts, time_at_push = now\<rparr>"




section \<open>LineParser: what each block computes\<close>

lemma list_index_first:
  "x \<notin> set pre \<Longrightarrow> list_index (pre @ x # post) x = Inr (int (length pre))"
  by (induction pre) (auto simp: ebind_def)

lemma startswith_refl: "startswith s s"
  by (induction s) auto

lemma idx_token_from_first:
  "\<forall>p\<in>set pre. \<not> startswith p tok \<Longrightarrow> startswith m tok \<Longrightarrow>
   idx_token_from i (pre @ m # post) tok = i + int (length pre)"
  by (induction pre arbitrary: i) (auto simp: startswith_refl)

lemma idx_token_from_none:
  "\<forall>p\<in>set parts. \<not> startswith p tok \<Longrightarrow> idx_token_from i parts tok = - 1"
  by (induction parts arbitrary: i) (auto simp: startswith_refl)

lemma py_get_after:
  "py_get (pre @ m # post) (int (length pre) + 1 + int k) =
     (if k < length post then Inr (post ! k) else Inl IndexError)"
  by (auto simp: py_get_def Let_def nth_append nat_add_distrib)

lemma float_at_after:
  "float_at pf (pre @ m # post) (int (length pre) + 1 + int k) =
     (if k < length post then py_float pf (post ! k) else Inl IndexError)"
  by (simp add: float_at_def py_get_after ebind_def)

lemma float_at_after_numeral:
  "float_at pf (pre @ m # post) (int (length pre) + 1) =
     (if 0 < length post then py_float pf (post ! 0) else Inl IndexError)"
  "float_at pf (pre @ m # post) (int (length pre) + 2) =
     (if 1 < length post then py_float pf (post ! 1) else Inl IndexError)"
  "float_at pf (pre @ m # post) (int (length pre) + 3) =
     (if 2 < length post then py_float pf (post ! 2) else Inl IndexError)"
  "float_at pf (pre @ m # post) (int (length pre) + 4) =
     (if 3 < length post then py_float pf (post ! 3) else Inl IndexError)"
  "float_at pf (pre @ m # post) (int (length pre) + 5) =
     (if 4 < length post then py_float pf (post ! 4) else Inl IndexError)"
  "float_at pf (pre @ m # post) (int (length pre) + 6) =
     (if 5 < length post then py_float pf (post ! 5) else Inl IndexError)"
  using float_at_after[of pf pre m post 0] float_at_after[of pf pre m post 1]
    float_at_after[of pf pre m post 2] float_at_after[of pf pre m post 3]
    float_at_after[of pf pre m post 4] float_at_after[of pf pre m post 5]
  by (simp_all add: add.commute)

lemma tmp_block_first:
  assumes "''TMP'' \<notin> set pre"
  shows "try_except data (tmp_block pf (pre @ ''TMP'' # post) data) =
     Inr (case leading_floats pf 1 post of Some [v] \<Rightarrow> data\<lparr>d_tmp := Some v\<rparr> | _ \<Rightarrow> data)"
  using assms
  by (cases post)
     (auto simp: tmp_block_def list_index_first float_at_after_numeral ebind_def try_except_def
        py_float_def split: option.splits)

lemma gps_block_first:
  assumes "''GPS'' \<notin> set pre"
  shows "try_except data (gps_block pf (pre @ ''GPS'' # post) data) =
     Inr (case leading_floats pf 3 post of Some [a, b, c] \<Rightarrow> data\<lparr>d_gps := Some (a, b, c)\<rparr> | _ \<Rightarrow> data)"
proof -
  consider "post = []" | a where "post = [a]" | a b where "post = [a, b]"
    | a b c rest where "post = a # b # c # rest"
    by (cases post rule: list.exhaust; cases "tl post"; cases "tl (tl post)") auto
  then show ?thesis using assms
    by cases
     (auto simp: gps_block_def list_index_first float_at_after_numeral ebind_def try_except_def
        py_float_def numeral_3_eq_3 split: option.splits)
qed


lemma post_cases3:
  obtains "post = []" | a where "post = [a]" | a b where "post = [a, b]"
    | a b c rest where "post = a # b # c # rest"
  by (cases post rule: list.exhaust; cases "tl post"; cases "tl (tl post)") auto

lemma ms5611_block_first:
  assumes "\<forall>p\<in>set pre. \<not> startswith p ''MS5611''" "startswith m ''MS5611''"
  shows "try_except data (ms5611_block pf (pre @ m # post) data) =
     Inr (if 3 \<le> length post then
            (case leading_floats pf 3 post of
               Some [t, p, a] \<Rightarrow> data\<lparr>d_ms5611 := Some \<lparr>temp = t, pressure = p, altitude = a\<rparr>\<rparr>
             | _ \<Rightarrow> data)
          else if length post = 2 then data
          else data\<lparr>d_ms5611 := Some
                 \<lparr>temp = (case d_tmp data of Some v \<Rightarrow> v | None \<Rightarrow> Finite 0),
                  pressure = Finite 1013.25,
                  altitude = (case d_gps data of Some (x, y, z) \<Rightarrow> z | None \<Rightarrow> Finite 0)\<rparr>\<rparr>)"
proof -
  have idx: "idx_token (pre @ m # ts) ''MS5611'' = int (length pre)" for ts
    using assms by (simp add: idx_token_def idx_token_from_first)
  show ?thesis
    by (cases post rule: post_cases3)
      (auto simp: ms5611_block_def idx float_at_after_numeral ebind_def try_except_def
        py_float_def numeral_3_eq_3 Let_def split: option.splits prod.splits)
qed

lemma ms5611_block_none:
  assumes "\<forall>p\<in>set parts. \<not> startswith p ''MS5611''"
  shows "try_except data (ms5611_block pf parts data) = Inr data"
  using assms by (simp add: ms5611_block_def idx_token_def idx_token_from_none try_except_def)

lemma post_cases6:
  obtains "length post < 6"
    | a b c d e f rest where "post = a # b # c # d # e # f # rest"
proof (cases "length post < 6")
  case True then show ?thesis using that by blast
next
  case False
  then obtain a p1 where 1: "post = a # p1" "5 \<le> length p1" by (cases post) auto
  then obtain b p2 where 2: "p1 = b # p2" "4 \<le> length p2" by (cases p1) auto
  then obtain c p3 where 3: "p2 = c # p3" "3 \<le> length p3" by (cases p2) auto
  then obtain d p4 where 4: "p3 = d # p4" "2 \<le> length p4" by (cases p3) auto
  then obtain e p5 where 5: "p4 = e # p5" "1 \<le> length p5" by (cases p4) auto
  then obtain f p6 where 6: "p5 = f # p6" by (cases p5) auto
  show ?thesis using that(2) 1 2 3 4 5 6 by blast
qed

lemma leading_floats_short: "length ts < n \<Longrightarrow> leading_floats pf n ts = None"
  by (induction pf n ts rule: leading_floats.induct) (auto split: option.splits)

lemma leading_floats_length: "leading_floats pf n ts = Some vs \<Longrightarrow> length vs = n"
  by (induction pf n ts arbitrary: vs rule: leading_floats.induct) (auto split: option.splits)

lemma mpu6050_block_short:
  assumes "''MPU6050'' \<notin> set pre" "length post < 6"
  shows "try_except data (mpu6050_block pf (pre @ ''MPU6050'' # post) data) = Inr data"
proof -
  have "length post < 5 \<or> length post = 5" using assms(2) by arith
  then show ?thesis
  proof
    assume "length post < 5"
    then show ?thesis using assms(1)
      by (simp add: mpu6050_block_def list_index_first ebind_def try_except_def)
  next
    assume 5: "length post = 5"
    have "mpu6050_block pf (pre @ ''MPU6050'' # post) data = Inl IndexError
        \<or> mpu6050_block pf (pre @ ''MPU6050'' # post) data = Inl ValueError"
      using assms(1) 5
      by (simp add: mpu6050_block_def list_index_first float_at_after_numeral ebind_def
          py_float_def split: option.splits sum.splits)
    then show ?thesis by (auto simp: try_except_def)
  qed
qed

lemma mpu6050_block_first:
  assumes "''MPU6050'' \<notin> set pre"
  shows "try_except data (mpu6050_block pf (pre @ ''MPU6050'' # post) data) =
     Inr (case leading_floats pf 6 post of
            Some [v1, v2, v3, v4, v5, v6] \<Rightarrow>
              data\<lparr>d_mpu6050 := Some \<lparr>gx = v1, gy = v2, gz = v3, ax = v4, ay = v5, az = v6\<rparr>\<rparr>
          | _ \<Rightarrow> data)"
proof (cases post rule: post_cases6)
  case 1
  then show ?thesis using assms by (simp add: mpu6050_block_short leading_floats_short)
next
  case (2 a b c d e f rest)
  have six: "(6::nat) = Suc (Suc (Suc (Suc (Suc (Suc 0)))))" by simp
  show ?thesis using assms unfolding 2
    by (simp add: mpu6050_block_def list_index_first float_at_after_numeral ebind_def
        try_except_def py_float_def six split: option.splits)
qed


lemma tokens_after_Some:
  "tokens_after P parts = Some post \<Longrightarrow>
   \<exists>pre m. parts = pre @ m # post \<and> P m \<and> (\<forall>p\<in>set pre. \<not> P p)"
proof (induction parts)
  case Nil
  then show ?case by simp
next
  case (Cons a parts)
  show ?case
  proof (cases "P a")
    case True
    with Cons.prems have "a # parts = [] @ a # post" by simp
    with True show ?thesis by fastforce
  next
    case False
    with Cons obtain pre m where "parts = pre @ m # post" "P m" "\<forall>p\<in>set pre. \<not> P p"
      by auto
    with False have "a # parts = (a # pre) @ m # post \<and> P m \<and> (\<forall>p\<in>set (a # pre). \<not> P p)"
      by simp
    then show ?thesis by blast
  qed
qed

lemma tokens_after_None: "tokens_after P parts = None \<Longrightarrow> \<forall>p\<in>set parts. \<not> P p"
  by (induction parts) (auto split: if_splits)

lemma tokens_after_first:
  "\<forall>p\<in>set pre. \<not> P p \<Longrightarrow> P m \<Longrightarrow> tokens_after P (pre @ m # post) = Some post"
  by (induction pre) auto

lemma tmp_block_eq:
  "try_except data (tmp_block pf parts data) =
     Inr (case tmp_field pf parts of Some v \<Rightarrow> data\<lparr>d_tmp := Some v\<rparr> | None \<Rightarrow> data)"
proof (cases "tokens_after (\<lambda>p. p = ''TMP'') parts")
  case None
  then have "''TMP'' \<notin> set parts" using tokens_after_None[OF None] by auto
  then show ?thesis using None by (simp add: tmp_block_def try_except_def tmp_field_def)
next
  case (Some post)
  then obtain pre where "parts = pre @ ''TMP'' # post" "''TMP'' \<notin> set pre"
    using tokens_after_Some[OF Some] by auto
  then show ?thesis using Some
    by (simp add: tmp_block_first tmp_field_def split: option.splits list.splits)
qed

lemma gps_block_eq:
  "try_except data (gps_block pf parts data) =
     Inr (case gps_field pf parts of Some g \<Rightarrow> data\<lparr>d_gps := Some g\<rparr> | None \<Rightarrow> data)"
proof (cases "tokens_after (\<lambda>p. p = ''GPS'') parts")
  case None
  then have "''GPS'' \<notin> set parts" using tokens_after_None[OF None] by auto
  then show ?thesis using None by (simp add: gps_block_def try_except_def gps_field_def)
next
  case (Some post)
  then obtain pre where "parts = pre @ ''GPS'' # post" "''GPS'' \<notin> set pre"
    using tokens_after_Some[OF Some] by auto
  then show ?thesis using Some
    by (simp add: gps_block_first gps_field_def split: option.splits list.splits)
qed

lemma mpu6050_block_eq:
  "try_except data (mpu6050_block pf parts data) =
     Inr (case mpu6050_field pf parts of Some v \<Rightarrow> data\<lparr>d_mpu6050 := Some v\<rparr> | None \<Rightarrow> data)"
proof (cases "tokens_after (\<lambda>p. p = ''MPU6050'') parts")
  case None
  then have "''MPU6050'' \<notin> set parts" using tokens_after_None[OF None] by auto
  then show ?thesis using None by (simp add: mpu6050_block_def try_except_def mpu6050_field_def)
next
  case (Some post)
  then obtain pre where "parts = pre @ ''MPU6050'' # post" "''MPU6050'' \<notin> set pre"
    using tokens_after_Some[OF Some] by auto
  then show ?thesis using Some
    by (simp add: mpu6050_block_first mpu6050_field_def split: option.splits list.splits)
qed

lemma ms5611_block_eq:
  assumes "d_tmp data = tmp_field pf parts" "d_gps data = gps_field pf parts"
  shows "try_except data (ms5611_block pf parts data) =
     Inr (case ms5611_field pf parts of Some v \<Rightarrow> data\<lparr>d_ms5611 := Some v\<rparr> | None \<Rightarrow> data)"
proof (cases "tokens_after (\<lambda>p. startswith p ''MS5611'') parts")
  case None
  then have "\<forall>p\<in>set parts. \<not> startswith p ''MS5611''" using tokens_after_None[OF None] by auto
  then show ?thesis using None by (simp add: ms5611_block_none ms5611_field_def)
next
  case (Some post)
  then obtain pre m where "parts = pre @ m # post" "startswith m ''MS5611''"
      "\<forall>p\<in>set pre. \<not> startswith p ''MS5611''"
    using tokens_after_Some[OF Some] by auto
  then show ?thesis using Some assms
    by (simp add: ms5611_block_first ms5611_field_def substitute_ms5611_def
        split: option.splits list.splits)
qed

lemma parse_parts_eq:
  "parse_parts pf parts =
     Inr \<lparr>d_tmp = tmp_field pf parts, d_gps = gps_field pf parts,
          d_ms5611 = ms5611_field pf parts, d_mpu6050 = mpu6050_field pf parts\<rparr>"
proof -
  define d1 where "d1 = \<lparr>d_tmp = tmp_field pf parts, d_gps = None, d_ms5611 = None,
    d_mpu6050 = None\<rparr>"
  define d2 where "d2 = \<lparr>d_tmp = tmp_field pf parts, d_gps = gps_field pf parts,
    d_ms5611 = None, d_mpu6050 = None\<rparr>"
  define d3 where "d3 = \<lparr>d_tmp = tmp_field pf parts, d_gps = gps_field pf parts,
    d_ms5611 = ms5611_field pf parts, d_mpu6050 = None\<rparr>"
  have 1: "try_except empty_data (tmp_block pf parts empty_data) = Inr d1"
    by (simp add: tmp_block_eq empty_data_def d1_def split: option.splits)
  have 2: "try_except d1 (gps_block pf parts d1) = Inr d2"
    by (simp add: gps_block_eq d1_def d2_def split: option.splits)
  have 3: "try_except d2 (ms5611_block pf parts d2) = Inr d3"
    by (simp add: ms5611_block_eq d2_def d3_def split: option.splits)
  have 4: "try_except d3 (mpu6050_block pf parts d3) =
      Inr \<lparr>d_tmp = tmp_field pf parts, d_gps = gps_field pf parts,
          d_ms5611 = ms5611_field pf parts, d_mpu6050 = mpu6050_field pf parts\<rparr>"
    by (simp add: mpu6050_block_eq d3_def split: option.splits)
  show ?thesis
    by (simp add: parse_parts_def ebind_def 1 2 3 4)
qed

section \<open>LineParser: the fields of a line\<close>

lemma tokens_after_absent: "\<forall>p\<in>set parts. \<not> P p \<Longrightarrow> tokens_after P parts = None"
  by (induction parts) auto

lemma tokens_after_absent_eq: "x \<notin> set parts \<Longrightarrow> tokens_after (\<lambda>p. p = x) parts = None"
  by (induction parts) auto


lemma leading_floats_Some_iff:
  "leading_floats pf n ts = Some vs \<longleftrightarrow> n \<le> length ts \<and> map pf (take n ts) = map Some vs"
  by (induction pf n ts arbitrary: vs rule: leading_floats.induct)
     (auto split: option.splits)

lemma leading_floats_None_iff:
  "leading_floats pf n ts = None \<longleftrightarrow> length ts < n \<or> (\<exists>t\<in>set (take n ts). pf t = None)"
  by (induction pf n ts rule: leading_floats.induct) (auto split: option.splits)



text \<open>Unfolding rules for evaluating the tokenizer and the example float parser.\<close>

lemmas eval_tokens = re_split_def strip_def is_space_def is_sep_def



section \<open>IngestLoop: line selection and merging\<close>

lemma parse_telem_line_eq:
  "parse_telem_line pf l =
     Inr \<lparr>d_tmp = tmp_field pf (re_split (strip l)), d_gps = gps_field pf (re_split (strip l)),
          d_ms5611 = ms5611_field pf (re_split (strip l)),
          d_mpu6050 = mpu6050_field pf (re_split (strip l))\<rparr>"
  by (simp add: parse_telem_line_def parse_parts_eq)

lemma tokens_empty_line: "re_split (strip []) = [[]]"
  by (simp add: re_split_def strip_def)

lemma fields_empty_line:
  "ms5611_field pf [[]] = None" "mpu6050_field pf [[]] = None" "tmp_field pf [[]] = None"
  by (simp_all add: ms5611_field_def mpu6050_field_def tmp_field_def)

lemma merge_ms5611_eq:
  "merge_ms5611 pf l =
     (opt_list (map_option Set_ms5611 (ms5611_field pf (re_split (strip l)))), Inr ())"
  by (cases "l = []")
     (simp_all add: merge_ms5611_def parse_telem_line_eq rbind_def unlocked_def locked_block_def
        opt_list_def tokens_empty_line fields_empty_line split: option.splits)

lemma merge_mpu6050_eq:
  "merge_mpu6050 pf l =
     (opt_list (map_option Set_mpu6050 (mpu6050_field pf (re_split (strip l)))), Inr ())"
  by (cases "l = []")
     (simp_all add: merge_mpu6050_def parse_telem_line_eq rbind_def unlocked_def locked_block_def
        opt_list_def tokens_empty_line fields_empty_line split: option.splits)

lemma merge_tmp_eq:
  "merge_tmp pf l =
     (opt_list (map_option Set_tmp (tmp_field pf (re_split (strip l)))), Inr ())"
  by (cases "l = []")
     (simp_all add: merge_tmp_def parse_telem_line_eq rbind_def unlocked_def locked_block_def
        opt_list_def tokens_empty_line fields_empty_line split: option.splits)

lemma str_contains_nonempty: "str_contains (c # cs) s \<Longrightarrow> s \<noteq> []"
  by auto

lemma pick_Cons:
  "pick acc (c # cs) (line # rest) =
     pick (if str_contains (c # cs) (strip line) \<and> acc = [] then strip line else acc) (c # cs) rest"
  by (auto simp: pick_def dest: str_contains_nonempty)

lemma pick_found: "acc \<noteq> [] \<Longrightarrow> pick acc m ls = acc"
  by (simp add: pick_def)

lemma scan_lines_eq:
  "scan_lines ls (a, b, c) = (pick a ''MS5611'' ls, pick b ''MPU6050'' ls, pick c ''TMP'' ls)"
proof (induction ls arbitrary: a b c)
  case Nil
  show ?case by (simp add: pick_def)
next
  case (Cons line rest)
  define s where "s = strip line"
  define A where "A = (if str_contains ''MS5611'' s \<and> a = [] then s else a)"
  define B where "B = (if str_contains ''MPU6050'' s \<and> b = [] then s else b)"
  define C where "C = (if str_contains ''TMP'' s \<and> c = [] then s else c)"
  have step: "scan_lines (line # rest) (a, b, c) =
      (if s = [] then scan_lines rest (a, b, c)
       else if A \<noteq> [] \<and> B \<noteq> [] \<and> C \<noteq> [] then (A, B, C)
       else scan_lines rest (A, B, C))"
    unfolding s_def A_def B_def C_def scan_lines.simps Let_def ..
  have p: "(pick a ''MS5611'' (line # rest), pick b ''MPU6050'' (line # rest),
            pick c ''TMP'' (line # rest)) =
           (pick A ''MS5611'' rest, pick B ''MPU6050'' rest, pick C ''TMP'' rest)"
    unfolding s_def A_def B_def C_def by (simp only: pick_Cons)
  show ?case
  proof (cases "s = []")
    case True
    then have "A = a" "B = b" "C = c" by (simp_all add: A_def B_def C_def)
    then show ?thesis using True step p Cons.IH[of a b c] by (simp del: scan_lines.simps)
  next
    case False
    show ?thesis
    proof (cases "A \<noteq> [] \<and> B \<noteq> [] \<and> C \<noteq> []")
      case True
      then have "pick A ''MS5611'' rest = A" "pick B ''MPU6050'' rest = B"
        "pick C ''TMP'' rest = C"
        by (simp_all add: pick_found)
      then show ?thesis using True False step p by (simp del: scan_lines.simps)
    next
      case F2: False
      then show ?thesis using False step p Cons.IH[of A B C] by (auto simp del: scan_lines.simps)
    qed
  qed
qed

lemma select_lines_eq:
  "select_lines lines =
     (or_else (recent_line ''MS5611'' lines) [], or_else (recent_line ''MPU6050'' lines) [],
      or_else (recent_line ''TMP'' lines) [])"
  by (simp add: select_lines_def scan_lines_eq pick_def recent_line_def or_else_def rev_map)

section \<open>IngestLoop: the branches of an iteration\<close>

lemma telem_reader_cycle:
  "telem (fst (reader_cycle tok pf e st)) = run_locked (fst (ingest pf e)) (telem st)"
  by (simp add: reader_cycle_def Let_def split: prod.splits sum.splits)

lemma ingest_no_file:
  "\<not> path_exists e \<Longrightarrow>
   ingest pf e = ([Set_system \<lparr>cpu = cpu_percent e, gpu_temp = gpu_temp_read e\<rparr>,
                   Set_status ''no_file'' (utc_now_iso e)], Inr ())"
  by (simp add: ingest_def rbind_def locked_block_def)

lemma ingest_stat_error:
  "path_exists e \<Longrightarrow> getmtime e = Inl ex \<Longrightarrow>
   ingest pf e = ([Set_system \<lparr>cpu = cpu_percent e, gpu_temp = gpu_temp_read e\<rparr>], Inl ex)"
  by (simp add: ingest_def rbind_def locked_block_def unlocked_def)

lemma ingest_stale:
  "path_exists e \<Longrightarrow> getmtime e = Inr mtime \<Longrightarrow> time_at_age e - mtime > STALE_TIMEOUT \<Longrightarrow>
   ingest pf e = ([Set_system \<lparr>cpu = cpu_percent e, gpu_temp = gpu_temp_read e\<rparr>,
                   Set_status ''stale'' (utc_now_iso e)], Inr ())"
  by (simp add: ingest_def rbind_def locked_block_def unlocked_def)

lemma ingest_read_error:
  "path_exists e \<Longrightarrow> getmtime e = Inr mtime \<Longrightarrow> \<not> time_at_age e - mtime > STALE_TIMEOUT \<Longrightarrow>
   readlines e = Inl ex \<Longrightarrow>
   ingest pf e = ([Set_system \<lparr>cpu = cpu_percent e, gpu_temp = gpu_temp_read e\<rparr>], Inl ex)"
  by (simp add: ingest_def rbind_def locked_block_def unlocked_def)

lemma field_of_selection:
  "ms5611_field pf (re_split (strip (or_else (recent_line ''MS5611'' lines) []))) =
     selected_ms5611 pf lines"
  "mpu6050_field pf (re_split (strip (or_else (recent_line ''MPU6050'' lines) []))) =
     selected_mpu6050 pf lines"
  "tmp_field pf (re_split (strip (or_else (recent_line ''TMP'' lines) []))) =
     selected_tmp pf lines"
  by (simp_all add: selected_ms5611_def selected_mpu6050_def selected_tmp_def or_else_def
      tokens_empty_line fields_empty_line split: option.splits)

lemma ingest_live:
  "path_exists e \<Longrightarrow> getmtime e = Inr mtime \<Longrightarrow> \<not> time_at_age e - mtime > STALE_TIMEOUT \<Longrightarrow>
   readlines e = Inr lines \<Longrightarrow>
   ingest pf e =
     (Set_system \<lparr>cpu = cpu_percent e, gpu_temp = gpu_temp_read e\<rparr> #
      Set_status ''live'' (utc_now_iso e) #
      opt_list (map_option Set_ms5611 (selected_ms5611 pf lines)) @
      opt_list (map_option Set_mpu6050 (selected_mpu6050 pf lines)) @
      opt_list (map_option Set_tmp (selected_tmp pf lines)), Inr ())"
  by (simp add: ingest_def rbind_def locked_block_def unlocked_def select_lines_eq
      merge_ms5611_eq merge_mpu6050_eq merge_tmp_eq field_of_selection)

lemma run_locked_simps:
  "run_locked [] t = t"
  "run_locked (u # us) t = run_locked us (with_lock u t)"
  "run_locked (us @ vs) t = run_locked vs (run_locked us t)"
  by (simp_all add: run_locked_def)

lemma run_locked_opt:
  "run_locked (opt_list (map_option Set_ms5611 x)) t = t\<lparr>ms5611 := or_else x (ms5611 t)\<rparr>"
  "run_locked (opt_list (map_option Set_mpu6050 y)) t = t\<lparr>mpu6050 := or_else y (mpu6050 t)\<rparr>"
  "run_locked (opt_list (map_option Set_tmp z)) t = t\<lparr>tmp := or_else z (tmp t)\<rparr>"
  by (simp_all add: run_locked_def opt_list_def or_else_def split: option.splits)

lemma live_cycle_telem:
  assumes "path_exists e" "getmtime e = Inr mtime" "\<not> time_at_age e - mtime > STALE_TIMEOUT"
    "readlines e = Inr lines"
  shows "telem (fst (reader_cycle tok pf e st)) =
    (telem st)\<lparr>status := ''live'', timestamp := Some (utc_now_iso e),
       ms5611 := or_else (selected_ms5611 pf lines) (ms5611 (telem st)),
       mpu6050 := or_else (selected_mpu6050 pf lines) (mpu6050 (telem st)),
       tmp := or_else (selected_tmp pf lines) (tmp (telem st)),
       system := \<lparr>cpu = cpu_percent e, gpu_temp = gpu_temp_read e\<rparr>\<rparr>"
  by (simp add: telem_reader_cycle ingest_live[OF assms] run_locked_simps run_locked_opt)

lemma stale_cycle_telem:
  assumes "path_exists e" "getmtime e = Inr mtime" "time_at_age e - mtime > STALE_TIMEOUT"
  shows "telem (fst (reader_cycle tok pf e st)) =
    (telem st)\<lparr>status := ''stale'', timestamp := Some (utc_now_iso e),
       system := \<lparr>cpu = cpu_percent e, gpu_temp = gpu_temp_read e\<rparr>\<rparr>"
  by (simp add: telem_reader_cycle ingest_stale[OF assms] run_locked_simps)


section \<open>The pressure substitution policy\<close>




text \<open>
  C2, as amended. In a live cycle, when the line selected for the pressure marker has the
  marker as its last token, and \<open>parse_telem_line\<close> finds a TMP value and a GPS fix on that
  same line, the pressure reading of the snapshot after the cycle is that TMP value,
  1013.25 and the third GPS coordinate.
\<close>

theorem pressure_marker_only_line_merge:
  assumes "path_exists e" and "getmtime e = Inr mtime"
    and "time_at_age e - mtime \<le> STALE_TIMEOUT"
    and "readlines e = Inr lines"
    and "select_lines lines = (l, l_mpu, l_tmp)"
    and "re_split (strip l) = pre @ [m]"
    and "startswith m ''MS5611''"
    and "\<forall>p\<in>set pre. \<not> startswith p ''MS5611''"
    and "parse_telem_line pf l = Inr d"
    and "d_tmp d = Some t"
    and "d_gps d = Some (x, y, z)"
  shows "ms5611 (telem (fst (reader_cycle tok pf e st))) =
           \<lparr>temp = t, pressure = Finite 1013.25, altitude = z\<rparr>"
proof -
  have l: "l = or_else (recent_line ''MS5611'' lines) []"
    using assms(5) by (simp add: select_lines_eq)
  have sel: "selected_ms5611 pf lines = ms5611_field pf (re_split (strip l))"
    unfolding l by (simp only: field_of_selection)
  have ta: "tokens_after (\<lambda>p. startswith p ''MS5611'') (re_split (strip l)) = Some []"
    using assms(6,7,8) by (simp add: tokens_after_first)
  have d: "d = \<lparr>d_tmp = tmp_field pf (re_split (strip l)),
         d_gps = gps_field pf (re_split (strip l)),
         d_ms5611 = ms5611_field pf (re_split (strip l)),
         d_mpu6050 = mpu6050_field pf (re_split (strip l))\<rparr>"
    using assms(9) by (simp add: parse_telem_line_eq)
  have tf: "tmp_field pf (re_split (strip l)) = Some t"
    using assms(10) by (subst (asm) d) simp
  have gf: "gps_field pf (re_split (strip l)) = Some (x, y, z)"
    using assms(11) by (subst (asm) d) simp
  have "selected_ms5611 pf lines = Some \<lparr>temp = t, pressure = Finite 1013.25, altitude = z\<rparr>"
    by (simp add: sel ms5611_field_def ta tf gf substitute_ms5611_def)
  moreover have "\<not> time_at_age e - mtime > STALE_TIMEOUT" using assms(3) by simp
  ultimately show ?thesis
    using live_cycle_telem[OF assms(1,2) _ assms(4), of tok pf st]
    by (simp add: or_else_def)
qed


text \<open>
  The theorem at a file whose last line carries TMP, GPS and the closing pressure marker.
\<close>

theorem pressure_marker_only_line_merge_witness:
  "ms5611 (telem (fst (reader_cycle [] decimal_float
      (live_env [''MPU6050 1 2 3 4 5 6'', ''TMP 21.5 GPS 1 2 30 MS5611>''] ''T1'' 1000)
      reader_start))) =
     \<lparr>temp = Finite 21.5, pressure = Finite 1013.25, altitude = Finite 30\<rparr>"
proof -
  let ?lines = "[''MPU6050 1 2 3 4 5 6'', ''TMP 21.5 GPS 1 2 30 MS5611>'']"
  let ?e = "live_env ?lines ''T1'' 1000"
  let ?l = "''TMP 21.5 GPS 1 2 30 MS5611>''"
  let ?d = "\<lparr>d_tmp = Some (Finite 21.5), d_gps = Some (Finite 1, Finite 2, Finite 30),
    d_ms5611 = Some \<lparr>temp = Finite 21.5, pressure = Finite 1013.25, altitude = Finite 30\<rparr>,
    d_mpu6050 = None\<rparr>"
  have 1: "path_exists ?e" and 2: "getmtime ?e = Inr 990"
    and 3: "time_at_age ?e - 990 \<le> STALE_TIMEOUT" and 4: "readlines ?e = Inr ?lines"
    by (simp_all add: live_env_def STALE_TIMEOUT_def)
  have 5: "select_lines ?lines = (?l, ''MPU6050 1 2 3 4 5 6'', ?l)"
    by code_simp
  have 6: "re_split (strip ?l) = [''TMP'', ''21.5'', ''GPS'', ''1'', ''2'', ''30''] @ [''MS5611>'']"
    by (simp add: eval_tokens)
  have 7: "startswith ''MS5611>'' ''MS5611''" by simp
  have 8: "\<forall>p\<in>set [''TMP'', ''21.5'', ''GPS'', ''1'', ''2'', ''30'']. \<not> startswith p ''MS5611''"
    by simp
  have 9: "parse_telem_line decimal_float ?l = Inr ?d" by code_simp
  have 10: "d_tmp ?d = Some (Finite 21.5)" and 11: "d_gps ?d = Some (Finite 1, Finite 2, Finite 30)"
    by simp_all
  show ?thesis
    by (rule pressure_marker_only_line_merge[OF 1 2 3 4 5 6 7 8 9 10 11])
qed

text \<open>
  C2 as stated fails: with TMP and GPS parsed in the same cycle from another line of the
  file, the marker-only line gives temp 0.0 and altitude 0.0.
\<close>

theorem tmp_and_gps_on_another_line:
  "select_lines [''TMP 21.5 GPS 1 2 30'', ''MS5611''] = (''MS5611'', [], ''TMP 21.5 GPS 1 2 30'') \<and>
   parse_telem_line decimal_float ''TMP 21.5 GPS 1 2 30'' =
     Inr \<lparr>d_tmp = Some (Finite 21.5), d_gps = Some (Finite 1, Finite 2, Finite 30),
          d_ms5611 = None, d_mpu6050 = None\<rparr> \<and>
   ms5611 (telem (fst (reader_cycle [] decimal_float
      (live_env [''TMP 21.5 GPS 1 2 30'', ''MS5611''] ''T1'' 1000) reader_start))) =
     \<lparr>temp = Finite 0, pressure = Finite 1013.25, altitude = Finite 0\<rparr> \<and>
   tmp (telem (fst (reader_cycle [] decimal_float
      (live_env [''TMP 21.5 GPS 1 2 30'', ''MS5611''] ''T1'' 1000) reader_start))) = Finite 21.5"
  by code_simp

section \<open>IngestLoop: selection and partial merge in a live cycle\<close>

lemma find_app:
  "find P (xs @ ys) = (case find P xs of None \<Rightarrow> find P ys | Some x \<Rightarrow> Some x)"
  by (induction xs) auto

lemma recent_line_last:
  assumes "lines = older @ x # newer" "str_contains m (strip x)"
    "\<forall>y\<in>set newer. \<not> str_contains m (strip y)"
  shows "recent_line m lines = Some (strip x)"
proof -
  have "find (str_contains m) (rev (map strip newer)) = None"
    using assms(3) by (simp add: find_None_iff)
  then show ?thesis
    using assms(1,2) by (simp add: recent_line_def find_app)
qed

lemma recent_line_none:
  "\<forall>y\<in>set lines. \<not> str_contains m (strip y) \<Longrightarrow> recent_line m lines = None"
  by (simp add: recent_line_def find_None_iff)

lemma recent_line_suffix:
  assumes "\<exists>y\<in>set recent. str_contains m (strip y)"
  shows "recent_line m (older @ recent) = recent_line m recent"
proof -
  have "find (str_contains m) (rev (map strip recent)) \<noteq> None"
    using assms by (simp add: find_None_iff)
  then show ?thesis
    by (auto simp: recent_line_def find_app split: option.splits)
qed

lemma strip_idem: "strip (strip s) = strip s"
proof -
  define a where "a = dropWhile is_space s"
  define b where "b = rev (dropWhile is_space (rev a))"
  have ab: "a = b @ rev (takeWhile is_space (rev a))"
  proof -
    have "b @ rev (takeWhile is_space (rev a)) =
        rev (takeWhile is_space (rev a) @ dropWhile is_space (rev a))"
      unfolding b_def by (simp only: rev_append)
    also have "\<dots> = rev (rev a)" by (simp only: takeWhile_dropWhile_id)
    finally show ?thesis by simp
  qed
  have a_head: "a = [] \<or> \<not> is_space (hd a)"
    unfolding a_def using hd_dropWhile[of is_space s] by blast
  have "b = [] \<or> \<not> is_space (hd b)"
  proof (cases "b = []")
    case True then show ?thesis by simp
  next
    case False
    then have "hd a = hd b" using ab by (metis hd_append2)
    moreover have "a \<noteq> []" using False ab by auto
    ultimately show ?thesis using a_head by simp
  qed
  then have 1: "dropWhile is_space b = b"
    by (cases b) auto
  have 2: "dropWhile is_space (rev b) = rev b"
    unfolding b_def by simp
  have "strip s = b" by (simp add: strip_def a_def b_def)
  moreover have "strip b = b" by (simp add: strip_def 1 2)
  ultimately show ?thesis by simp
qed


text \<open>
  C5, as amended. In a live cycle (the file exists, is at most 120 seconds old and is read)
  the status becomes \<open>live\<close> and the time stamp is set. For each of the three markers: the
  line selected is the most recent line of the file, stripped, that contains the marker
  as a substring; \<open>parse_telem_line\<close> runs on it and only that marker's own field group is
  merged from it, when the parser produced it; the group keeps its previous value when the
  parser produced none, and when no line contains the marker. The lines older than a
  suffix of the file in which all three markers occur do not enter the selection: the
  scan has stopped before them.
\<close>

theorem live_cycle_selection_and_merge:
  assumes "path_exists e" and "getmtime e = Inr mtime"
    and "time_at_age e - mtime \<le> 120"
    and "readlines e = Inr lines"
    and "t = telem st"
    and "t' = telem (fst (reader_cycle tok pf e st))"
  shows "status t' = ''live'' \<and>
    timestamp t' = Some (utc_now_iso e) \<and>
    (\<forall>older x newer. lines = older @ x # newer \<and> str_contains ''MS5611'' (strip x) \<and>
         (\<forall>y\<in>set newer. \<not> str_contains ''MS5611'' (strip y)) \<longrightarrow>
       fst (select_lines lines) = strip x \<and>
       (\<exists>d. parse_telem_line pf (strip x) = Inr d \<and>
            ms5611 t' = (case d_ms5611 d of Some v \<Rightarrow> v | None \<Rightarrow> ms5611 t))) \<and>
    ((\<forall>y\<in>set lines. \<not> str_contains ''MS5611'' (strip y)) \<longrightarrow>
       fst (select_lines lines) = [] \<and> ms5611 t' = ms5611 t) \<and>
    (\<forall>older x newer. lines = older @ x # newer \<and> str_contains ''MPU6050'' (strip x) \<and>
         (\<forall>y\<in>set newer. \<not> str_contains ''MPU6050'' (strip y)) \<longrightarrow>
       fst (snd (select_lines lines)) = strip x \<and>
       (\<exists>d. parse_telem_line pf (strip x) = Inr d \<and>
            mpu6050 t' = (case d_mpu6050 d of Some v \<Rightarrow> v | None \<Rightarrow> mpu6050 t))) \<and>
    ((\<forall>y\<in>set lines. \<not> str_contains ''MPU6050'' (strip y)) \<longrightarrow>
       fst (snd (select_lines lines)) = [] \<and> mpu6050 t' = mpu6050 t) \<and>
    (\<forall>older x newer. lines = older @ x # newer \<and> str_contains ''TMP'' (strip x) \<and>
         (\<forall>y\<in>set newer. \<not> str_contains ''TMP'' (strip y)) \<longrightarrow>
       snd (snd (select_lines lines)) = strip x \<and>
       (\<exists>d. parse_telem_line pf (strip x) = Inr d \<and>
            tmp t' = (case d_tmp d of Some v \<Rightarrow> v | None \<Rightarrow> tmp t))) \<and>
    ((\<forall>y\<in>set lines. \<not> str_contains ''TMP'' (strip y)) \<longrightarrow>
       snd (snd (select_lines lines)) = [] \<and> tmp t' = tmp t) \<and>
    (\<forall>older recent. lines = older @ recent \<and>
         (\<exists>y\<in>set recent. str_contains ''MS5611'' (strip y)) \<and>
         (\<exists>y\<in>set recent. str_contains ''MPU6050'' (strip y)) \<and>
         (\<exists>y\<in>set recent. str_contains ''TMP'' (strip y)) \<longrightarrow>
       select_lines lines = select_lines recent)"
proof -
  have age: "\<not> time_at_age e - mtime > STALE_TIMEOUT"
    using assms(3) by (simp add: STALE_TIMEOUT_def)
  have t': "t' = t\<lparr>status := ''live'', timestamp := Some (utc_now_iso e),
       ms5611 := or_else (selected_ms5611 pf lines) (ms5611 t),
       mpu6050 := or_else (selected_mpu6050 pf lines) (mpu6050 t),
       tmp := or_else (selected_tmp pf lines) (tmp t),
       system := \<lparr>cpu = cpu_percent e, gpu_temp = gpu_temp_read e\<rparr>\<rparr>"
    unfolding assms(5,6) by (rule live_cycle_telem[OF assms(1,2) age assms(4)])
  have s1: "status t' = ''live''" and s2: "timestamp t' = Some (utc_now_iso e)"
    by (simp_all add: t')

  have g1a: "(\<forall>older x newer. lines = older @ x # newer \<and> str_contains ''MS5611'' (strip x) \<and>
         (\<forall>y\<in>set newer. \<not> str_contains ''MS5611'' (strip y)) \<longrightarrow>
       fst (select_lines lines) = strip x \<and>
       (\<exists>d. parse_telem_line pf (strip x) = Inr d \<and>
            ms5611 t' = (case d_ms5611 d of Some v \<Rightarrow> v | None \<Rightarrow> ms5611 t)))"
  proof (intro allI impI, elim conjE)
    fix older x newer
    assume dec: "lines = older @ x # newer" "str_contains ''MS5611'' (strip x)"
      "\<forall>y\<in>set newer. \<not> str_contains ''MS5611'' (strip y)"
    have r: "recent_line ''MS5611'' lines = Some (strip x)"
      using dec by (rule recent_line_last)
    have "ms5611 t' = (case d_ms5611 \<lparr>d_tmp = tmp_field pf (re_split (strip (strip x))),
          d_gps = gps_field pf (re_split (strip (strip x))),
          d_ms5611 = ms5611_field pf (re_split (strip (strip x))),
          d_mpu6050 = mpu6050_field pf (re_split (strip (strip x)))\<rparr>
        of Some v \<Rightarrow> v | None \<Rightarrow> ms5611 t)"
      by (simp add: t' selected_ms5611_def r or_else_def)
    then have "\<exists>d. parse_telem_line pf (strip x) = Inr d \<and>
        ms5611 t' = (case d_ms5611 d of Some v \<Rightarrow> v | None \<Rightarrow> ms5611 t)"
      unfolding parse_telem_line_eq by (intro exI conjI) (rule refl)
    moreover have "fst (select_lines lines) = strip x"
      by (simp add: select_lines_eq r or_else_def)
    ultimately show "fst (select_lines lines) = strip x \<and>
       (\<exists>d. parse_telem_line pf (strip x) = Inr d \<and>
            ms5611 t' = (case d_ms5611 d of Some v \<Rightarrow> v | None \<Rightarrow> ms5611 t))"
      by (rule conjI[rotated])
  qed
  have g1b: "((\<forall>y\<in>set lines. \<not> str_contains ''MS5611'' (strip y)) \<longrightarrow>
       fst (select_lines lines) = [] \<and> ms5611 t' = ms5611 t)"
  proof (intro impI)
    assume "\<forall>y\<in>set lines. \<not> str_contains ''MS5611'' (strip y)"
    then have r: "recent_line ''MS5611'' lines = None" by (rule recent_line_none)
    show "fst (select_lines lines) = [] \<and> ms5611 t' = ms5611 t"
      by (simp add: select_lines_eq t' selected_ms5611_def r or_else_def)
  qed

  have g2a: "(\<forall>older x newer. lines = older @ x # newer \<and> str_contains ''MPU6050'' (strip x) \<and>
         (\<forall>y\<in>set newer. \<not> str_contains ''MPU6050'' (strip y)) \<longrightarrow>
       fst (snd (select_lines lines)) = strip x \<and>
       (\<exists>d. parse_telem_line pf (strip x) = Inr d \<and>
            mpu6050 t' = (case d_mpu6050 d of Some v \<Rightarrow> v | None \<Rightarrow> mpu6050 t)))"
  proof (intro allI impI, elim conjE)
    fix older x newer
    assume dec: "lines = older @ x # newer" "str_contains ''MPU6050'' (strip x)"
      "\<forall>y\<in>set newer. \<not> str_contains ''MPU6050'' (strip y)"
    have r: "recent_line ''MPU6050'' lines = Some (strip x)"
      using dec by (rule recent_line_last)
    have "mpu6050 t' = (case d_mpu6050 \<lparr>d_tmp = tmp_field pf (re_split (strip (strip x))),
          d_gps = gps_field pf (re_split (strip (strip x))),
          d_ms5611 = ms5611_field pf (re_split (strip (strip x))),
          d_mpu6050 = mpu6050_field pf (re_split (strip (strip x)))\<rparr>
        of Some v \<Rightarrow> v | None \<Rightarrow> mpu6050 t)"
      by (simp add: t' selected_mpu6050_def r or_else_def)
    then have "\<exists>d. parse_telem_line pf (strip x) = Inr d \<and>
        mpu6050 t' = (case d_mpu6050 d of Some v \<Rightarrow> v | None \<Rightarrow> mpu6050 t)"
      unfolding parse_telem_line_eq by (intro exI conjI) (rule refl)
    moreover have "fst (snd (select_lines lines)) = strip x"
      by (simp add: select_lines_eq r or_else_def)
    ultimately show "fst (snd (select_lines lines)) = strip x \<and>
       (\<exists>d. parse_telem_line pf (strip x) = Inr d \<and>
            mpu6050 t' = (case d_mpu6050 d of Some v \<Rightarrow> v | None \<Rightarrow> mpu6050 t))"
      by (rule conjI[rotated])
  qed
  have g2b: "((\<forall>y\<in>set lines. \<not> str_contains ''MPU6050'' (strip y)) \<longrightarrow>
       fst (snd (select_lines lines)) = [] \<and> mpu6050 t' = mpu6050 t)"
  proof (intro impI)
    assume "\<forall>y\<in>set lines. \<not> str_contains ''MPU6050'' (strip y)"
    then have r: "recent_line ''MPU6050'' lines = None" by (rule recent_line_none)
    show "fst (snd (select_lines lines)) = [] \<and> mpu6050 t' = mpu6050 t"
      by (simp add: select_lines_eq t' selected_mpu6050_def r or_else_def)
  qed

  have g3a: "(\<forall>older x newer. lines = older @ x # newer \<and> str_contains ''TMP'' (strip x) \<and>
         (\<forall>y\<in>set newer. \<not> str_contains ''TMP'' (strip y)) \<longrightarrow>
       snd (snd (select_lines lines)) = strip x \<and>
       (\<exists>d. parse_telem_line pf (strip x) = Inr d \<and>
            tmp t' = (case d_tmp d of Some v \<Rightarrow> v | None \<Rightarrow> tmp t)))"
  proof (intro allI impI, elim conjE)
    fix older x newer
    assume dec: "lines = older @ x # newer" "str_contains ''TMP'' (strip x)"
      "\<forall>y\<in>set newer. \<not> str_contains ''TMP'' (strip y)"
    have r: "recent_line ''TMP'' lines = Some (strip x)"
      using dec by (rule recent_line_last)
    have "tmp t' = (case d_tmp \<lparr>d_tmp = tmp_field pf (re_split (strip (strip x))),
          d_gps = gps_field pf (re_split (strip (strip x))),
          d_ms5611 = ms5611_field pf (re_split (strip (strip x))),
          d_mpu6050 = mpu6050_field pf (re_split (strip (strip x)))\<rparr>
        of Some v \<Rightarrow> v | None \<Rightarrow> tmp t)"
      by (simp add: t' selected_tmp_def r or_else_def)
    then have "\<exists>d. parse_telem_line pf (strip x) = Inr d \<and>
        tmp t' = (case d_tmp d of Some v \<Rightarrow> v | None \<Rightarrow> tmp t)"
      unfolding parse_telem_line_eq by (intro exI conjI) (rule refl)
    moreover have "snd (snd (select_lines lines)) = strip x"
      by (simp add: select_lines_eq r or_else_def)
    ultimately show "snd (snd (select_lines lines)) = strip x \<and>
       (\<exists>d. parse_telem_line pf (strip x) = Inr d \<and>
            tmp t' = (case d_tmp d of Some v \<Rightarrow> v | None \<Rightarrow> tmp t))"
      by (rule conjI[rotated])
  qed
  have g3b: "((\<forall>y\<in>set lines. \<not> str_contains ''TMP'' (strip y)) \<longrightarrow>
       snd (snd (select_lines lines)) = [] \<and> tmp t' = tmp t)"
  proof (intro impI)
    assume "\<forall>y\<in>set lines. \<not> str_contains ''TMP'' (strip y)"
    then have r: "recent_line ''TMP'' lines = None" by (rule recent_line_none)
    show "snd (snd (select_lines lines)) = [] \<and> tmp t' = tmp t"
      by (simp add: select_lines_eq t' selected_tmp_def r or_else_def)
  qed

  have early: "(\<forall>older recent. lines = older @ recent \<and>
         (\<exists>y\<in>set recent. str_contains ''MS5611'' (strip y)) \<and>
         (\<exists>y\<in>set recent. str_contains ''MPU6050'' (strip y)) \<and>
         (\<exists>y\<in>set recent. str_contains ''TMP'' (strip y)) \<longrightarrow>
       select_lines lines = select_lines recent)"
  proof (intro allI impI, elim conjE)
    fix older recent
    assume "lines = older @ recent"
      and "\<exists>y\<in>set recent. str_contains ''MS5611'' (strip y)"
      and "\<exists>y\<in>set recent. str_contains ''MPU6050'' (strip y)"
      and "\<exists>y\<in>set recent. str_contains ''TMP'' (strip y)"
    then show "select_lines lines = select_lines recent"
      by (simp add: select_lines_eq recent_line_suffix)
  qed
  show ?thesis
    using s1 s2 g1a g1b g2a g2b g3a g3b early by (intro conjI)
qed


text \<open>
  The theorem at a file with the pressure reading on an older line than the IMU and TMP
  readings.
\<close>

theorem live_cycle_selection_and_merge_witness:
  "status (telem (fst (reader_cycle [] decimal_float
      (live_env [''MS5611 1 2 3'', ''MPU6050 1 2 3 4 5 6 TMP 21.5''] ''T1'' 1000)
      reader_start))) = ''live'' \<and>
   fst (select_lines [''MS5611 1 2 3'', ''MPU6050 1 2 3 4 5 6 TMP 21.5'']) = ''MS5611 1 2 3'' \<and>
   ms5611 (telem (fst (reader_cycle [] decimal_float
      (live_env [''MS5611 1 2 3'', ''MPU6050 1 2 3 4 5 6 TMP 21.5''] ''T1'' 1000)
      reader_start))) = \<lparr>temp = Finite 1, pressure = Finite 2, altitude = Finite 3\<rparr>"
proof -
  let ?x = "''MS5611 1 2 3''"
  let ?y = "''MPU6050 1 2 3 4 5 6 TMP 21.5''"
  let ?e = "live_env [?x, ?y] ''T1'' 1000"
  let ?t' = "telem (fst (reader_cycle [] decimal_float ?e reader_start))"
  have 1: "path_exists ?e" and 2: "getmtime ?e = Inr 990"
    and 3: "time_at_age ?e - 990 \<le> 120" and 4: "readlines ?e = Inr [?x, ?y]"
    by (simp_all add: live_env_def)
  note all = live_cycle_selection_and_merge[OF 1 2 3 4 refl refl, of "[]" decimal_float]
  have st: "status ?t' = ''live''" by (rule all[THEN conjunct1])
  have dec: "[?x, ?y] = [] @ ?x # [?y]" by simp
  have sx: "strip ?x = ?x" by (simp add: strip_def is_space_def)
  have c: "str_contains ''MS5611'' (strip ?x)" unfolding sx by simp
  have n: "\<forall>y\<in>set [?y]. \<not> str_contains ''MS5611'' (strip y)" by code_simp
  have p: "parse_telem_line decimal_float ?x =
      Inr \<lparr>d_tmp = None, d_gps = None,
        d_ms5611 = Some \<lparr>temp = Finite 1, pressure = Finite 2, altitude = Finite 3\<rparr>,
        d_mpu6050 = None\<rparr>"
    by code_simp
  note g = all[THEN conjunct2, THEN conjunct2, THEN conjunct1, rule_format, of "[]" ?x "[?y]"]
  have g': "fst (select_lines [?x, ?y]) = strip ?x \<and>
       (\<exists>d. parse_telem_line decimal_float (strip ?x) = Inr d \<and>
            ms5611 ?t' = (case d_ms5611 d of Some v \<Rightarrow> v | None \<Rightarrow> ms5611 (telem reader_start)))"
    by (rule g) (intro conjI dec c n)
  have sel: "fst (select_lines [?x, ?y]) = ?x"
    using g'[THEN conjunct1] unfolding sx .
  obtain d where d1: "parse_telem_line decimal_float ?x = Inr d"
    and d2: "ms5611 ?t' = (case d_ms5611 d of Some v \<Rightarrow> v | None \<Rightarrow> ms5611 (telem reader_start))"
    using g'[THEN conjunct2] unfolding sx by (elim exE conjE)
  have "d_ms5611 d = Some \<lparr>temp = Finite 1, pressure = Finite 2, altitude = Finite 3\<rparr>"
    using d1 unfolding p by auto
  then have ms: "ms5611 ?t' = \<lparr>temp = Finite 1, pressure = Finite 2, altitude = Finite 3\<rparr>"
    using d2 by simp
  from st sel ms show ?thesis by (intro conjI)
qed

text \<open>
  C5 as stated fails: the line selected for the pressure marker also yields a \<open>tmp\<close>
  field, 5.0, which is not merged. The line selected for TMP yields nothing, and the
  ambient temperature keeps its previous value 7.0.
\<close>

theorem other_field_of_selected_line_not_merged:
  "select_lines [''TMP 5 MS5611 1 2 3'', ''TMP''] = (''TMP 5 MS5611 1 2 3'', [], ''TMP'') \<and>
   parse_telem_line decimal_float ''TMP 5 MS5611 1 2 3'' =
     Inr \<lparr>d_tmp = Some (Finite 5), d_gps = None,
          d_ms5611 = Some \<lparr>temp = Finite 1, pressure = Finite 2, altitude = Finite 3\<rparr>,
          d_mpu6050 = None\<rparr> \<and>
   parse_telem_line decimal_float ''TMP'' =
     Inr \<lparr>d_tmp = None, d_gps = None, d_ms5611 = None, d_mpu6050 = None\<rparr> \<and>
   tmp (telem (fst (reader_cycle [] decimal_float
      (live_env [''TMP 5 MS5611 1 2 3'', ''TMP''] ''T1'' 1000)
      \<lparr>telem = latest_telemetry\<lparr>tmp := Finite 7\<rparr>, last_gist_push = 0\<rparr>))) = Finite 7"
  by code_simp

section \<open>IngestLoop: staleness and repeated content\<close>

lemma parsed_field_of_selection:
  assumes "select_lines lines = (l1, l2, l3)"
  shows "\<exists>d1 d2 d3. parse_telem_line pf l1 = Inr d1 \<and> parse_telem_line pf l2 = Inr d2 \<and>
     parse_telem_line pf l3 = Inr d3 \<and>
     d_ms5611 d1 = selected_ms5611 pf lines \<and> d_mpu6050 d2 = selected_mpu6050 pf lines \<and>
     d_tmp d3 = selected_tmp pf lines"
proof -
  have l: "l1 = or_else (recent_line ''MS5611'' lines) []"
    "l2 = or_else (recent_line ''MPU6050'' lines) []"
    "l3 = or_else (recent_line ''TMP'' lines) []"
    using assms by (simp_all add: select_lines_eq)
  have f: "d_ms5611 \<lparr>d_tmp = a, d_gps = b, d_ms5611 = c, d_mpu6050 = d\<rparr> = c"
    "d_mpu6050 \<lparr>d_tmp = a, d_gps = b, d_ms5611 = c, d_mpu6050 = d\<rparr> = d"
    "d_tmp \<lparr>d_tmp = a, d_gps = b, d_ms5611 = c, d_mpu6050 = d\<rparr> = a" for a b c d
    by simp_all
  have "parse_telem_line pf l1 = Inr \<lparr>d_tmp = tmp_field pf (re_split (strip l1)),
          d_gps = gps_field pf (re_split (strip l1)),
          d_ms5611 = selected_ms5611 pf lines,
          d_mpu6050 = mpu6050_field pf (re_split (strip l1))\<rparr>"
    by (simp add: parse_telem_line_eq l(1) field_of_selection)
  moreover have "parse_telem_line pf l2 = Inr \<lparr>d_tmp = tmp_field pf (re_split (strip l2)),
          d_gps = gps_field pf (re_split (strip l2)),
          d_ms5611 = ms5611_field pf (re_split (strip l2)),
          d_mpu6050 = selected_mpu6050 pf lines\<rparr>"
    by (simp add: parse_telem_line_eq l(2) field_of_selection)
  moreover have "parse_telem_line pf l3 = Inr \<lparr>d_tmp = selected_tmp pf lines,
          d_gps = gps_field pf (re_split (strip l3)),
          d_ms5611 = ms5611_field pf (re_split (strip l3)),
          d_mpu6050 = mpu6050_field pf (re_split (strip l3))\<rparr>"
    by (simp add: parse_telem_line_eq l(3) field_of_selection)
  ultimately show ?thesis
    using f by blast
qed

text \<open>
  C6, as amended. In a cycle that finds the file and its modification time: when the age
  exceeds 120 seconds the status becomes \<open>stale\<close>, the time stamp is set and the
  pressure, IMU and ambient-temperature fields keep their values; when the age is at most
  120 seconds and the file is read without error, the status becomes \<open>live\<close>, the time
  stamp is set, and each of the three fields is the reading \<open>parse_telem_line\<close> gives on
  the line selected for it, or its previous value when that line gives none.
\<close>

theorem staleness_transition:
  assumes "path_exists e" and "getmtime e = Inr mtime"
    and "t = telem st"
    and "t' = telem (fst (reader_cycle tok pf e st))"
  shows "(time_at_age e - mtime > 120 \<longrightarrow>
       status t' = ''stale'' \<and> timestamp t' = Some (utc_now_iso e) \<and>
       ms5611 t' = ms5611 t \<and> mpu6050 t' = mpu6050 t \<and> tmp t' = tmp t) \<and>
    (time_at_age e - mtime \<le> 120 \<longrightarrow>
       (\<forall>lines l1 l2 l3. readlines e = Inr lines \<and> select_lines lines = (l1, l2, l3) \<longrightarrow>
          status t' = ''live'' \<and> timestamp t' = Some (utc_now_iso e) \<and>
          (\<exists>d1 d2 d3.
             parse_telem_line pf l1 = Inr d1 \<and> parse_telem_line pf l2 = Inr d2 \<and>
             parse_telem_line pf l3 = Inr d3 \<and>
             ms5611 t' = (case d_ms5611 d1 of Some v \<Rightarrow> v | None \<Rightarrow> ms5611 t) \<and>
             mpu6050 t' = (case d_mpu6050 d2 of Some v \<Rightarrow> v | None \<Rightarrow> mpu6050 t) \<and>
             tmp t' = (case d_tmp d3 of Some v \<Rightarrow> v | None \<Rightarrow> tmp t))))"
proof (rule conjI; intro impI allI)
  assume "time_at_age e - mtime > 120"
  then have "time_at_age e - mtime > STALE_TIMEOUT" by (simp add: STALE_TIMEOUT_def)
  from stale_cycle_telem[OF assms(1,2) this, of tok pf st]
  show "status t' = ''stale'' \<and> timestamp t' = Some (utc_now_iso e) \<and>
       ms5611 t' = ms5611 t \<and> mpu6050 t' = mpu6050 t \<and> tmp t' = tmp t"
    unfolding assms(3,4) by simp
next
  fix lines l1 l2 l3
  assume age: "time_at_age e - mtime \<le> 120"
    and rd: "readlines e = Inr lines \<and> select_lines lines = (l1, l2, l3)"
  have a: "\<not> time_at_age e - mtime > STALE_TIMEOUT" using age by (simp add: STALE_TIMEOUT_def)
  have t': "t' = t\<lparr>status := ''live'', timestamp := Some (utc_now_iso e),
       ms5611 := or_else (selected_ms5611 pf lines) (ms5611 t),
       mpu6050 := or_else (selected_mpu6050 pf lines) (mpu6050 t),
       tmp := or_else (selected_tmp pf lines) (tmp t),
       system := \<lparr>cpu = cpu_percent e, gpu_temp = gpu_temp_read e\<rparr>\<rparr>"
    unfolding assms(3,4) by (rule live_cycle_telem[OF assms(1,2) a rd[THEN conjunct1]])
  obtain d1 d2 d3 where d: "parse_telem_line pf l1 = Inr d1" "parse_telem_line pf l2 = Inr d2"
     "parse_telem_line pf l3 = Inr d3"
     "d_ms5611 d1 = selected_ms5611 pf lines" "d_mpu6050 d2 = selected_mpu6050 pf lines"
     "d_tmp d3 = selected_tmp pf lines"
    using parsed_field_of_selection[OF rd[THEN conjunct2], of pf] by (elim exE conjE)
  have "ms5611 t' = (case d_ms5611 d1 of Some v \<Rightarrow> v | None \<Rightarrow> ms5611 t)"
    "mpu6050 t' = (case d_mpu6050 d2 of Some v \<Rightarrow> v | None \<Rightarrow> mpu6050 t)"
    "tmp t' = (case d_tmp d3 of Some v \<Rightarrow> v | None \<Rightarrow> tmp t)"
    by (simp_all add: t' d or_else_def)
  with d(1,2,3) have "\<exists>d1 d2 d3.
             parse_telem_line pf l1 = Inr d1 \<and> parse_telem_line pf l2 = Inr d2 \<and>
             parse_telem_line pf l3 = Inr d3 \<and>
             ms5611 t' = (case d_ms5611 d1 of Some v \<Rightarrow> v | None \<Rightarrow> ms5611 t) \<and>
             mpu6050 t' = (case d_mpu6050 d2 of Some v \<Rightarrow> v | None \<Rightarrow> mpu6050 t) \<and>
             tmp t' = (case d_tmp d3 of Some v \<Rightarrow> v | None \<Rightarrow> tmp t)"
    by (intro exI conjI)
  moreover have "status t' = ''live''" "timestamp t' = Some (utc_now_iso e)"
    by (simp_all add: t')
  ultimately show "status t' = ''live'' \<and> timestamp t' = Some (utc_now_iso e) \<and>
          (\<exists>d1 d2 d3.
             parse_telem_line pf l1 = Inr d1 \<and> parse_telem_line pf l2 = Inr d2 \<and>
             parse_telem_line pf l3 = Inr d3 \<and>
             ms5611 t' = (case d_ms5611 d1 of Some v \<Rightarrow> v | None \<Rightarrow> ms5611 t) \<and>
             mpu6050 t' = (case d_mpu6050 d2 of Some v \<Rightarrow> v | None \<Rightarrow> mpu6050 t) \<and>
             tmp t' = (case d_tmp d3 of Some v \<Rightarrow> v | None \<Rightarrow> tmp t))"
    by (intro conjI)
qed

text \<open>
  C8, as amended. A second live cycle over the same lines leaves the snapshot of the first
  as it is, but for the time stamp and the host metrics, which are those of the second
  cycle.
\<close>

theorem second_cycle_same_content:
  assumes "path_exists e1" and "getmtime e1 = Inr m1" and "time_at_age e1 - m1 \<le> 120"
    and "readlines e1 = Inr lines"
    and "path_exists e2" and "getmtime e2 = Inr m2" and "time_at_age e2 - m2 \<le> 120"
    and "readlines e2 = Inr lines"
  shows "telem (fst (reader_cycle tok pf e2 (fst (reader_cycle tok pf e1 st)))) =
    (telem (fst (reader_cycle tok pf e1 st)))
      \<lparr>timestamp := Some (utc_now_iso e2),
       system := \<lparr>cpu = cpu_percent e2, gpu_temp = gpu_temp_read e2\<rparr>\<rparr>"
proof -
  have a1: "\<not> time_at_age e1 - m1 > STALE_TIMEOUT" and a2: "\<not> time_at_age e2 - m2 > STALE_TIMEOUT"
    using assms(3,7) by (simp_all add: STALE_TIMEOUT_def)
  show ?thesis
    unfolding live_cycle_telem[OF assms(5,6) a2 assms(8)]
      live_cycle_telem[OF assms(1,2) a1 assms(4)]
    by (simp add: or_else_def split: option.splits)
qed


text \<open>
  The theorem at a file 200 seconds old, and at a file ten seconds old read after the
  snapshot had gone stale.
\<close>

theorem staleness_transition_witness:
  "status (telem (fst (reader_cycle [] decimal_float (stale_env ''T2'' 2000)
      \<lparr>telem = latest_telemetry\<lparr>tmp := Finite 7\<rparr>, last_gist_push = 0\<rparr>))) = ''stale'' \<and>
   tmp (telem (fst (reader_cycle [] decimal_float (stale_env ''T2'' 2000)
      \<lparr>telem = latest_telemetry\<lparr>tmp := Finite 7\<rparr>, last_gist_push = 0\<rparr>))) = Finite 7 \<and>
   status (telem (fst (reader_cycle [] decimal_float (live_env [''TMP 21.5''] ''T3'' 3000)
      \<lparr>telem = latest_telemetry\<lparr>status := ''stale'', tmp := Finite 7\<rparr>,
       last_gist_push = 0\<rparr>))) = ''live'' \<and>
   tmp (telem (fst (reader_cycle [] decimal_float (live_env [''TMP 21.5''] ''T3'' 3000)
      \<lparr>telem = latest_telemetry\<lparr>status := ''stale'', tmp := Finite 7\<rparr>,
       last_gist_push = 0\<rparr>))) = Finite 21.5"
proof -
  let ?s = "\<lparr>telem = latest_telemetry\<lparr>tmp := Finite 7\<rparr>, last_gist_push = 0\<rparr>"
  let ?s' = "\<lparr>telem = latest_telemetry\<lparr>status := ''stale'', tmp := Finite 7\<rparr>,
       last_gist_push = 0\<rparr>"
  let ?e = "stale_env ''T2'' 2000"
  let ?f = "live_env [''TMP 21.5''] ''T3'' 3000"
  have e: "path_exists ?e" "getmtime ?e = Inr 1800" "time_at_age ?e - 1800 > 120"
    by (simp_all add: stale_env_def)
  have f: "path_exists ?f" "getmtime ?f = Inr 2990" "time_at_age ?f - 2990 \<le> 120"
    "readlines ?f = Inr [''TMP 21.5''] \<and> select_lines [''TMP 21.5''] = ([], [], ''TMP 21.5'')"
    by (simp_all add: live_env_def) code_simp
  have p: "parse_telem_line decimal_float ''TMP 21.5'' =
      Inr \<lparr>d_tmp = Some (Finite 21.5), d_gps = None, d_ms5611 = None, d_mpu6050 = None\<rparr>"
    by code_simp
  note stale = staleness_transition[OF e(1,2) refl refl, of "[]" decimal_float ?s,
      THEN conjunct1, THEN mp, OF e(3)]
  have 1: "status (telem (fst (reader_cycle [] decimal_float ?e ?s))) = ''stale''"
    using stale by (elim conjE)
  have 2: "tmp (telem (fst (reader_cycle [] decimal_float ?e ?s))) = Finite 7"
    using stale by (elim conjE) simp
  note live = staleness_transition[OF f(1,2) refl refl, of "[]" decimal_float ?s',
      THEN conjunct2, THEN mp, OF f(3), rule_format, OF f(4)]
  have 3: "status (telem (fst (reader_cycle [] decimal_float ?f ?s'))) = ''live''"
    using live by (elim conjE)
  obtain d3 where "parse_telem_line decimal_float ''TMP 21.5'' = Inr d3"
    and t: "tmp (telem (fst (reader_cycle [] decimal_float ?f ?s'))) =
      (case d_tmp d3 of Some v \<Rightarrow> v | None \<Rightarrow> tmp (telem ?s'))"
    using live by (elim conjE exE)
  then have "d_tmp d3 = Some (Finite 21.5)" unfolding p by auto
  then have 4: "tmp (telem (fst (reader_cycle [] decimal_float ?f ?s'))) = Finite 21.5"
    using t by simp
  from 1 2 3 4 show ?thesis by (intro conjI)
qed

text \<open>
  C6 as stated fails: the file is ten seconds old, under the threshold, but reading it
  raises; the cycle ends in the handler before the status is written, and the snapshot
  stays \<open>stale\<close> with its old time stamp.
\<close>

theorem fresh_unreadable_file_stays_stale:
  "path_exists (unreadable_env ''T3'' 3000) \<and>
   getmtime (unreadable_env ''T3'' 3000) = Inr 2990 \<and>
   time_at_age (unreadable_env ''T3'' 3000) - 2990 = 10 \<and>
   readlines (unreadable_env ''T3'' 3000) = Inl OSError \<and>
   status (telem (fst (reader_cycle [] decimal_float (unreadable_env ''T3'' 3000)
      \<lparr>telem = latest_telemetry\<lparr>status := ''stale'', timestamp := Some ''T2''\<rparr>,
       last_gist_push = 0\<rparr>))) = ''stale'' \<and>
   timestamp (telem (fst (reader_cycle [] decimal_float (unreadable_env ''T3'' 3000)
      \<lparr>telem = latest_telemetry\<lparr>status := ''stale'', timestamp := Some ''T2''\<rparr>,
       last_gist_push = 0\<rparr>))) = Some ''T2''"
  by code_simp

text \<open>
  The theorem at two cycles one second apart over the same one-line file.
\<close>

theorem second_cycle_same_content_witness:
  "telem (fst (reader_cycle [] decimal_float (live_env [''TMP 21.5''] ''T2'' 1001)
      (fst (reader_cycle [] decimal_float (live_env [''TMP 21.5''] ''T1'' 1000) reader_start)))) =
   (telem (fst (reader_cycle [] decimal_float (live_env [''TMP 21.5''] ''T1'' 1000) reader_start)))
      \<lparr>timestamp := Some ''T2'', system := \<lparr>cpu = Finite 3, gpu_temp = Finite 40\<rparr>\<rparr>"
proof -
  let ?e1 = "live_env [''TMP 21.5''] ''T1'' 1000"
  let ?e2 = "live_env [''TMP 21.5''] ''T2'' 1001"
  have 1: "path_exists ?e1" "getmtime ?e1 = Inr 990" "time_at_age ?e1 - 990 \<le> 120"
    "readlines ?e1 = Inr [''TMP 21.5'']"
    by (simp_all add: live_env_def)
  have 2: "path_exists ?e2" "getmtime ?e2 = Inr 991" "time_at_age ?e2 - 991 \<le> 120"
    "readlines ?e2 = Inr [''TMP 21.5'']"
    by (simp_all add: live_env_def)
  have 3: "utc_now_iso ?e2 = ''T2''" "cpu_percent ?e2 = Finite 3" "gpu_temp_read ?e2 = Finite 40"
    by (simp_all add: live_env_def)
  show ?thesis
    using second_cycle_same_content[OF 1 2, of "[]" decimal_float reader_start]
    unfolding 3 .
qed

text \<open>
  C8 as stated fails: over unchanged content the second cycle stamps its own time, so the
  snapshot after it differs from the snapshot after the first.
\<close>

theorem second_cycle_changes_timestamp:
  "timestamp (telem (fst (reader_cycle [] decimal_float (live_env [''TMP 21.5''] ''T1'' 1000)
      reader_start))) = Some ''T1'' \<and>
   timestamp (telem (fst (reader_cycle [] decimal_float (live_env [''TMP 21.5''] ''T2'' 1001)
      (fst (reader_cycle [] decimal_float (live_env [''TMP 21.5''] ''T1'' 1000) reader_start))))) =
     Some ''T2'' \<and>
   telem (fst (reader_cycle [] decimal_float (live_env [''TMP 21.5''] ''T2'' 1001)
      (fst (reader_cycle [] decimal_float (live_env [''TMP 21.5''] ''T1'' 1000) reader_start)))) \<noteq>
   telem (fst (reader_cycle [] decimal_float (live_env [''TMP 21.5''] ''T1'' 1000) reader_start))"
  by code_simp

section \<open>IngestLoop: markers inside longer tokens\<close>

text \<open>
  C10, as amended. Lines are selected by substring containment. In a live cycle, let \<open>x\<close>
  be the most recent line that contains a marker. For \<open>TMP\<close> and \<open>MPU6050\<close>, when the
  marker is not a token of \<open>x\<close> (it occurs only inside longer tokens), and for \<open>MS5611\<close>,
  when no token of \<open>x\<close> begins with the marker: \<open>x\<close> is the line selected for the marker,
  \<open>parse_telem_line\<close> produces no field for the marker from it, and the marker's field
  group keeps its previous value, whatever the older lines of the file hold.
\<close>

theorem marker_inside_longer_token:
  assumes "path_exists e" and "getmtime e = Inr mtime"
    and "time_at_age e - mtime \<le> 120"
    and "readlines e = Inr lines"
    and "lines = older @ x # newer"
    and "t = telem st"
    and "t' = telem (fst (reader_cycle tok pf e st))"
  shows "(str_contains ''TMP'' (strip x) \<and> (\<forall>y\<in>set newer. \<not> str_contains ''TMP'' (strip y)) \<and>
       ''TMP'' \<notin> set (re_split (strip x)) \<longrightarrow>
     snd (snd (select_lines lines)) = strip x \<and>
     (\<exists>d. parse_telem_line pf (strip x) = Inr d \<and> d_tmp d = None) \<and>
     tmp t' = tmp t) \<and>
    (str_contains ''MPU6050'' (strip x) \<and> (\<forall>y\<in>set newer. \<not> str_contains ''MPU6050'' (strip y)) \<and>
       ''MPU6050'' \<notin> set (re_split (strip x)) \<longrightarrow>
     fst (snd (select_lines lines)) = strip x \<and>
     (\<exists>d. parse_telem_line pf (strip x) = Inr d \<and> d_mpu6050 d = None) \<and>
     mpu6050 t' = mpu6050 t) \<and>
    (str_contains ''MS5611'' (strip x) \<and> (\<forall>y\<in>set newer. \<not> str_contains ''MS5611'' (strip y)) \<and>
       (\<forall>p\<in>set (re_split (strip x)). \<not> startswith p ''MS5611'') \<longrightarrow>
     fst (select_lines lines) = strip x \<and>
     (\<exists>d. parse_telem_line pf (strip x) = Inr d \<and> d_ms5611 d = None) \<and>
     ms5611 t' = ms5611 t)"
proof -
  have age: "\<not> time_at_age e - mtime > STALE_TIMEOUT"
    using assms(3) by (simp add: STALE_TIMEOUT_def)
  have t': "t' = t\<lparr>status := ''live'', timestamp := Some (utc_now_iso e),
       ms5611 := or_else (selected_ms5611 pf lines) (ms5611 t),
       mpu6050 := or_else (selected_mpu6050 pf lines) (mpu6050 t),
       tmp := or_else (selected_tmp pf lines) (tmp t),
       system := \<lparr>cpu = cpu_percent e, gpu_temp = gpu_temp_read e\<rparr>\<rparr>"
    unfolding assms(6,7) by (rule live_cycle_telem[OF assms(1,2) age assms(4)])

  have a: "(str_contains ''TMP'' (strip x) \<and> (\<forall>y\<in>set newer. \<not> str_contains ''TMP'' (strip y)) \<and>
       ''TMP'' \<notin> set (re_split (strip x)) \<longrightarrow>
     snd (snd (select_lines lines)) = strip x \<and>
     (\<exists>d. parse_telem_line pf (strip x) = Inr d \<and> d_tmp d = None) \<and>
     tmp t' = tmp t)"
  proof (intro impI, elim conjE)
    assume c: "str_contains ''TMP'' (strip x)"
      and nw: "\<forall>y\<in>set newer. \<not> str_contains ''TMP'' (strip y)"
      and tk: "''TMP'' \<notin> set (re_split (strip x))"
    have r: "recent_line ''TMP'' lines = Some (strip x)"
      using assms(5) c nw by (rule recent_line_last)
    have none: "tmp_field pf (re_split (strip x)) = None"
      using tk by (simp add: tmp_field_def tokens_after_absent_eq)
    have "parse_telem_line pf (strip x) =
        Inr \<lparr>d_tmp = tmp_field pf (re_split (strip x)), d_gps = gps_field pf (re_split (strip x)),
          d_ms5611 = ms5611_field pf (re_split (strip x)),
          d_mpu6050 = mpu6050_field pf (re_split (strip x))\<rparr>"
      by (simp add: parse_telem_line_eq strip_idem)
    then have "\<exists>d. parse_telem_line pf (strip x) = Inr d \<and> d_tmp d = None"
      using none by simp
    moreover have "snd (snd (select_lines lines)) = strip x"
      by (simp add: select_lines_eq r or_else_def)
    moreover have "tmp t' = tmp t"
      by (simp add: t' selected_tmp_def r strip_idem none or_else_def)
    ultimately show "snd (snd (select_lines lines)) = strip x \<and>
     (\<exists>d. parse_telem_line pf (strip x) = Inr d \<and> d_tmp d = None) \<and>
     tmp t' = tmp t"
      by (intro conjI)
  qed

  have b: "(str_contains ''MPU6050'' (strip x) \<and> (\<forall>y\<in>set newer. \<not> str_contains ''MPU6050'' (strip y)) \<and>
       ''MPU6050'' \<notin> set (re_split (strip x)) \<longrightarrow>
     fst (snd (select_lines lines)) = strip x \<and>
     (\<exists>d. parse_telem_line pf (strip x) = Inr d \<and> d_mpu6050 d = None) \<and>
     mpu6050 t' = mpu6050 t)"
  proof (intro impI, elim conjE)
    assume c: "str_contains ''MPU6050'' (strip x)"
      and nw: "\<forall>y\<in>set newer. \<not> str_contains ''MPU6050'' (strip y)"
      and tk: "''MPU6050'' \<notin> set (re_split (strip x))"
    have r: "recent_line ''MPU6050'' lines = Some (strip x)"
      using assms(5) c nw by (rule recent_line_last)
    have none: "mpu6050_field pf (re_split (strip x)) = None"
      using tk by (simp add: mpu6050_field_def tokens_after_absent_eq)
    have "parse_telem_line pf (strip x) =
        Inr \<lparr>d_tmp = tmp_field pf (re_split (strip x)), d_gps = gps_field pf (re_split (strip x)),
          d_ms5611 = ms5611_field pf (re_split (strip x)),
          d_mpu6050 = mpu6050_field pf (re_split (strip x))\<rparr>"
      by (simp add: parse_telem_line_eq strip_idem)
    then have "\<exists>d. parse_telem_line pf (strip x) = Inr d \<and> d_mpu6050 d = None"
      using none by simp
    moreover have "fst (snd (select_lines lines)) = strip x"
      by (simp add: select_lines_eq r or_else_def)
    moreover have "mpu6050 t' = mpu6050 t"
      by (simp add: t' selected_mpu6050_def r strip_idem none or_else_def)
    ultimately show "fst (snd (select_lines lines)) = strip x \<and>
     (\<exists>d. parse_telem_line pf (strip x) = Inr d \<and> d_mpu6050 d = None) \<and>
     mpu6050 t' = mpu6050 t"
      by (intro conjI)
  qed

  have c: "(str_contains ''MS5611'' (strip x) \<and> (\<forall>y\<in>set newer. \<not> str_contains ''MS5611'' (strip y)) \<and>
       (\<forall>p\<in>set (re_split (strip x)). \<not> startswith p ''MS5611'') \<longrightarrow>
     fst (select_lines lines) = strip x \<and>
     (\<exists>d. parse_telem_line pf (strip x) = Inr d \<and> d_ms5611 d = None) \<and>
     ms5611 t' = ms5611 t)"
  proof (intro impI, elim conjE)
    assume c: "str_contains ''MS5611'' (strip x)"
      and nw: "\<forall>y\<in>set newer. \<not> str_contains ''MS5611'' (strip y)"
      and tk: "\<forall>p\<in>set (re_split (strip x)). \<not> startswith p ''MS5611''"
    have r: "recent_line ''MS5611'' lines = Some (strip x)"
      using assms(5) c nw by (rule recent_line_last)
    have none: "ms5611_field pf (re_split (strip x)) = None"
      using tk by (simp add: ms5611_field_def tokens_after_absent)
    have "parse_telem_line pf (strip x) =
        Inr \<lparr>d_tmp = tmp_field pf (re_split (strip x)), d_gps = gps_field pf (re_split (strip x)),
          d_ms5611 = ms5611_field pf (re_split (strip x)),
          d_mpu6050 = mpu6050_field pf (re_split (strip x))\<rparr>"
      by (simp add: parse_telem_line_eq strip_idem)
    then have "\<exists>d. parse_telem_line pf (strip x) = Inr d \<and> d_ms5611 d = None"
      using none by simp
    moreover have "fst (select_lines lines) = strip x"
      by (simp add: select_lines_eq r or_else_def)
    moreover have "ms5611 t' = ms5611 t"
      by (simp add: t' selected_ms5611_def r strip_idem none or_else_def)
    ultimately show "fst (select_lines lines) = strip x \<and>
     (\<exists>d. parse_telem_line pf (strip x) = Inr d \<and> d_ms5611 d = None) \<and>
     ms5611 t' = ms5611 t"
      by (intro conjI)
  qed

  from a b c show ?thesis by (intro conjI)
qed

text \<open>
  The theorem at a file whose last line has the three markers inside longer tokens only,
  after a line with well-formed TMP and pressure readings.
\<close>

theorem marker_inside_longer_token_witness:
  "select_lines [''TMP 5 MS5611 1 2 3'', ''TMPX 7 XMPU6050 XMS5611 8''] =
     (''TMPX 7 XMPU6050 XMS5611 8'', ''TMPX 7 XMPU6050 XMS5611 8'', ''TMPX 7 XMPU6050 XMS5611 8'') \<and>
   tmp (telem (fst (reader_cycle [] decimal_float
     (live_env [''TMP 5 MS5611 1 2 3'', ''TMPX 7 XMPU6050 XMS5611 8''] ''T1'' 1000)
     \<lparr>telem = latest_telemetry\<lparr>tmp := Finite 3\<rparr>, last_gist_push = 0\<rparr>))) = Finite 3 \<and>
   mpu6050 (telem (fst (reader_cycle [] decimal_float
     (live_env [''TMP 5 MS5611 1 2 3'', ''TMPX 7 XMPU6050 XMS5611 8''] ''T1'' 1000)
     \<lparr>telem = latest_telemetry\<lparr>tmp := Finite 3\<rparr>, last_gist_push = 0\<rparr>))) =
     mpu6050 latest_telemetry \<and>
   ms5611 (telem (fst (reader_cycle [] decimal_float
     (live_env [''TMP 5 MS5611 1 2 3'', ''TMPX 7 XMPU6050 XMS5611 8''] ''T1'' 1000)
     \<lparr>telem = latest_telemetry\<lparr>tmp := Finite 3\<rparr>, last_gist_push = 0\<rparr>))) =
     ms5611 latest_telemetry"
proof -
  let ?s = "\<lparr>telem = latest_telemetry\<lparr>tmp := Finite 3\<rparr>, last_gist_push = 0\<rparr>"
  let ?o = "''TMP 5 MS5611 1 2 3''"
  let ?x = "''TMPX 7 XMPU6050 XMS5611 8''"
  let ?e = "live_env [?o, ?x] ''T1'' 1000"
  have 1: "path_exists ?e" "getmtime ?e = Inr 990" "time_at_age ?e - 990 \<le> 120"
    "readlines ?e = Inr [?o, ?x]"
    by (simp_all add: live_env_def)
  have 2: "[?o, ?x] = [?o] @ ?x # []" by simp
  have sx: "strip ?x = ?x" by (simp add: strip_def is_space_def)
  have tk: "re_split ?x = [''TMPX'', ''7'', ''XMPU6050'', ''XMS5611'', ''8'']"
    by (simp add: eval_tokens)
  have h1: "str_contains ''TMP'' (strip ?x) \<and>
      (\<forall>y\<in>set []. \<not> str_contains ''TMP'' (strip y)) \<and> ''TMP'' \<notin> set (re_split (strip ?x))"
    unfolding sx tk by simp
  have h2: "str_contains ''MPU6050'' (strip ?x) \<and>
      (\<forall>y\<in>set []. \<not> str_contains ''MPU6050'' (strip y)) \<and>
      ''MPU6050'' \<notin> set (re_split (strip ?x))"
    unfolding sx tk by simp
  have h3: "str_contains ''MS5611'' (strip ?x) \<and>
      (\<forall>y\<in>set []. \<not> str_contains ''MS5611'' (strip y)) \<and>
      (\<forall>p\<in>set (re_split (strip ?x)). \<not> startswith p ''MS5611'')"
    unfolding sx tk by simp
  note w = marker_inside_longer_token[OF 1 2 refl refl,
      where tok="[]" and pf=decimal_float and st="?s"]
  note w1 = w[THEN conjunct1, THEN mp, OF h1]
  note w2 = w[THEN conjunct2, THEN conjunct1, THEN mp, OF h2]
  note w3 = w[THEN conjunct2, THEN conjunct2, THEN mp, OF h3]
  have "select_lines [?o, ?x] = (?x, ?x, ?x)"
    using w1[THEN conjunct1] w2[THEN conjunct1] w3[THEN conjunct1] unfolding sx
    by (cases "select_lines [?o, ?x]") simp
  moreover have "tmp (telem (fst (reader_cycle [] decimal_float ?e ?s))) = Finite 3"
    using w1[THEN conjunct2, THEN conjunct2] by simp
  moreover have "mpu6050 (telem (fst (reader_cycle [] decimal_float ?e ?s))) =
      mpu6050 latest_telemetry"
    using w2[THEN conjunct2, THEN conjunct2] by simp
  moreover have "ms5611 (telem (fst (reader_cycle [] decimal_float ?e ?s))) =
      ms5611 latest_telemetry"
    using w3[THEN conjunct2, THEN conjunct2] by simp
  ultimately show ?thesis by (intro conjI)
qed

text \<open>
  C10 as stated fails for the pressure marker: in the token \<open>MS5611>\<close> the marker occurs
  only inside a longer token, the line is selected, and the parser does produce the
  pressure field from it, which is merged.
\<close>

theorem pressure_marker_prefix_token_parsed:
  "re_split (strip ''GPS 1 2 30 MS5611>'') = [''GPS'', ''1'', ''2'', ''30'', ''MS5611>''] \<and>
   fst (select_lines [''MS5611 1 2 3'', ''GPS 1 2 30 MS5611>'']) = ''GPS 1 2 30 MS5611>'' \<and>
   parse_telem_line decimal_float ''GPS 1 2 30 MS5611>'' =
     Inr \<lparr>d_tmp = None, d_gps = Some (Finite 1, Finite 2, Finite 30),
          d_ms5611 = Some \<lparr>temp = Finite 0, pressure = Finite 1013.25, altitude = Finite 30\<rparr>,
          d_mpu6050 = None\<rparr> \<and>
   ms5611 (telem (fst (reader_cycle [] decimal_float
      (live_env [''MS5611 1 2 3'', ''GPS 1 2 30 MS5611>''] ''T1'' 1000) reader_start))) =
     \<lparr>temp = Finite 0, pressure = Finite 1013.25, altitude = Finite 30\<rparr>"
  by code_simp

section \<open>The status invariant and the relay\<close>

lemma ingest_cases:
  obtains
    (no_file) "\<not> path_exists e"
  | (stat_error) ex where "path_exists e" "getmtime e = Inl ex"
  | (stale) mtime where "path_exists e" "getmtime e = Inr mtime"
      "time_at_age e - mtime > STALE_TIMEOUT"
  | (read_error) mtime ex where "path_exists e" "getmtime e = Inr mtime"
      "\<not> time_at_age e - mtime > STALE_TIMEOUT" "readlines e = Inl ex"
  | (live) mtime lines where "path_exists e" "getmtime e = Inr mtime"
      "\<not> time_at_age e - mtime > STALE_TIMEOUT" "readlines e = Inr lines"
proof (cases "path_exists e")
  case False
  then show ?thesis by (rule no_file)
next
  case True
  show ?thesis
  proof (cases "getmtime e")
    case (Inl ex)
    with True show ?thesis by (rule stat_error)
  next
    case (Inr mtime)
    show ?thesis
    proof (cases "time_at_age e - mtime > STALE_TIMEOUT")
      case True
      with \<open>path_exists e\<close> Inr show ?thesis by (rule stale)
    next
      case False
      show ?thesis
      proof (cases "readlines e")
        case (Inl ex)
        with \<open>path_exists e\<close> Inr False show ?thesis by (rule read_error)
      next
        case Inr2: (Inr lines)
        with \<open>path_exists e\<close> Inr False show ?thesis by (rule live)
      qed
    qed
  qed
qed








subsection \<open>The rate limit of the relay\<close>











section \<open>SnapshotStore: what concurrent reads observe\<close>

lemma interleave_prefix:
  "r \<in> set (interleave sch us t) \<Longrightarrow> \<exists>p. prefix p us \<and> r = run_locked p t"
proof (induction sch us t rule: interleave.induct)
  case (1 us t)
  then show ?case by simp
next
  case (2 sch us t)
  show ?case
  proof (cases "r = t")
    case True
    then have "prefix [] us \<and> r = run_locked [] t" by (simp add: run_locked_simps)
    then show ?thesis by blast
  next
    case False
    then show ?thesis using 2 by simp
  qed
next
  case (3 sch t)
  then show ?case by simp
next
  case (4 sch u us t)
  then obtain p where "prefix p us" "r = run_locked p (with_lock u t)" by auto
  then have "prefix (u # p) (u # us) \<and> r = run_locked (u # p) t"
    by (simp add: run_locked_simps)
  then show ?case by blast
qed

lemma untouched_group:
  assumes "\<And>u t. \<not> tch u \<Longrightarrow> g (with_lock u t) = g t"
  shows "filter tch us = [] \<Longrightarrow> g (run_locked us t) = g t"
proof (induction us arbitrary: t)
  case Nil
  then show ?case by (simp add: run_locked_simps)
next
  case (Cons u us)
  then have "\<not> tch u" "filter tch us = []" by (auto split: if_splits)
  then show ?case using Cons.IH[of "with_lock u t"] assms[of u t]
    by (simp add: run_locked_simps)
qed

lemma group_prefix:
  assumes tch: "\<And>u t. \<not> tch u \<Longrightarrow> g (with_lock u t) = g t"
    and one: "length (filter tch us) \<le> 1"
    and pre: "prefix p us"
  shows "g (run_locked p t) = g t \<or> g (run_locked p t) = g (run_locked us t)"
proof -
  from pre obtain q where us: "us = p @ q" by (auto simp: prefix_def)
  show ?thesis
  proof (cases "filter tch p = []")
    case True
    then show ?thesis using untouched_group[of tch g p t] tch by simp
  next
    case False
    then have "length (filter tch p) \<ge> 1" by (cases "filter tch p") simp_all
    moreover have "length (filter tch p) + length (filter tch q) \<le> 1" using one us by simp
    ultimately have "length (filter tch q) = 0" by linarith
    then have "filter tch q = []" by simp
    then have "g (run_locked q (run_locked p t)) = g (run_locked p t)"
      using untouched_group[of tch g q "run_locked p t"] tch by simp
    then show ?thesis by (simp add: us run_locked_simps)
  qed
qed

lemma filter_opt_list:
  "length (filter P (opt_list x)) \<le> 1"
  by (simp add: opt_list_def split: option.splits)

lemma ingest_one_writer:
  "length (filter sets_system (fst (ingest pf e))) \<le> 1 \<and>
   length (filter sets_status (fst (ingest pf e))) \<le> 1 \<and>
   length (filter sets_ms5611 (fst (ingest pf e))) \<le> 1 \<and>
   length (filter sets_mpu6050 (fst (ingest pf e))) \<le> 1 \<and>
   length (filter sets_tmp (fst (ingest pf e))) \<le> 1"
proof -
  have o: "filter sets_system (opt_list (map_option Set_ms5611 x)) = []"
    "filter sets_system (opt_list (map_option Set_mpu6050 y)) = []"
    "filter sets_system (opt_list (map_option Set_tmp z)) = []"
    "filter sets_status (opt_list (map_option Set_ms5611 x)) = []"
    "filter sets_status (opt_list (map_option Set_mpu6050 y)) = []"
    "filter sets_status (opt_list (map_option Set_tmp z)) = []"
    "filter sets_ms5611 (opt_list (map_option Set_mpu6050 y)) = []"
    "filter sets_ms5611 (opt_list (map_option Set_tmp z)) = []"
    "filter sets_mpu6050 (opt_list (map_option Set_ms5611 x)) = []"
    "filter sets_mpu6050 (opt_list (map_option Set_tmp z)) = []"
    "filter sets_tmp (opt_list (map_option Set_ms5611 x)) = []"
    "filter sets_tmp (opt_list (map_option Set_mpu6050 y)) = []"
    for x y z
    by (simp_all add: opt_list_def split: option.splits)
  have f: "length (filter P (opt_list x)) \<le> Suc 0" for P and x :: "locked option"
    using filter_opt_list[of P x] by simp
  show ?thesis
  proof (cases e rule: ingest_cases)
    case no_file
    show ?thesis by (simp add: ingest_no_file[OF no_file])
  next
    case (stat_error ex)
    show ?thesis by (simp add: ingest_stat_error[OF stat_error])
  next
    case (stale mtime)
    show ?thesis by (simp add: ingest_stale[OF stale])
  next
    case (read_error mtime ex)
    show ?thesis by (simp add: ingest_read_error[OF read_error])
  next
    case (live mtime lines)
    show ?thesis by (simp add: ingest_live[OF live] o f)
  qed
qed

text \<open>
  C1, as amended. For every interleaving of one ingestion with any number of reads of the
  snapshot, each read observes every field group whole: status and time stamp together
  are both old or both new, and each of the pressure, IMU, ambient-temperature and host
  groups is either the old or the new one. Different groups may be in different states:
  the reader thread releases the lock between the groups.
\<close>

theorem reader_observes_whole_field_groups:
  assumes "new = run_locked (fst (ingest pf e)) old"
  shows "\<forall>sch. \<forall>r\<in>set (interleave sch (fst (ingest pf e)) old).
    ((status r = status old \<and> timestamp r = timestamp old) \<or>
     (status r = status new \<and> timestamp r = timestamp new)) \<and>
    (ms5611 r = ms5611 old \<or> ms5611 r = ms5611 new) \<and>
    (mpu6050 r = mpu6050 old \<or> mpu6050 r = mpu6050 new) \<and>
    (tmp r = tmp old \<or> tmp r = tmp new) \<and>
    (system r = system old \<or> system r = system new)"
proof (intro allI ballI)
  fix sch r
  assume "r \<in> set (interleave sch (fst (ingest pf e)) old)"
  then obtain p where p: "prefix p (fst (ingest pf e))" and r: "r = run_locked p old"
    using interleave_prefix by blast
  have ow: "length (filter sets_system (fst (ingest pf e))) \<le> 1"
    "length (filter sets_status (fst (ingest pf e))) \<le> 1"
    "length (filter sets_ms5611 (fst (ingest pf e))) \<le> 1"
    "length (filter sets_mpu6050 (fst (ingest pf e))) \<le> 1"
    "length (filter sets_tmp (fst (ingest pf e))) \<le> 1"
    using ingest_one_writer[of pf e] by simp_all
  have w: "\<not> sets_status u \<Longrightarrow> (status (with_lock u t), timestamp (with_lock u t)) =
        (status t, timestamp t)"
    "\<not> sets_ms5611 u \<Longrightarrow> ms5611 (with_lock u t) = ms5611 t"
    "\<not> sets_mpu6050 u \<Longrightarrow> mpu6050 (with_lock u t) = mpu6050 t"
    "\<not> sets_tmp u \<Longrightarrow> tmp (with_lock u t) = tmp t"
    "\<not> sets_system u \<Longrightarrow> system (with_lock u t) = system t" for u t
    by (cases u, simp_all)+
  have 1: "(status r, timestamp r) = (status old, timestamp old) \<or>
      (status r, timestamp r) = (status new, timestamp new)"
    unfolding r assms
    by (rule group_prefix[where g="\<lambda>t. (status t, timestamp t)" and tch=sets_status,
          OF w(1) ow(2) p])
  have 2: "ms5611 r = ms5611 old \<or> ms5611 r = ms5611 new"
    unfolding r assms
    by (rule group_prefix[where g=ms5611 and tch=sets_ms5611, OF w(2) ow(3) p])
  have 3: "mpu6050 r = mpu6050 old \<or> mpu6050 r = mpu6050 new"
    unfolding r assms
    by (rule group_prefix[where g=mpu6050 and tch=sets_mpu6050, OF w(3) ow(4) p])
  have 4: "tmp r = tmp old \<or> tmp r = tmp new"
    unfolding r assms
    by (rule group_prefix[where g=tmp and tch=sets_tmp, OF w(4) ow(5) p])
  have 5: "system r = system old \<or> system r = system new"
    unfolding r assms
    by (rule group_prefix[where g=system and tch=sets_system, OF w(5) ow(1) p])
  from 1 2 3 4 5
  show "((status r = status old \<and> timestamp r = timestamp old) \<or>
     (status r = status new \<and> timestamp r = timestamp new)) \<and>
    (ms5611 r = ms5611 old \<or> ms5611 r = ms5611 new) \<and>
    (mpu6050 r = mpu6050 old \<or> mpu6050 r = mpu6050 new) \<and>
    (tmp r = tmp old \<or> tmp r = tmp new) \<and>
    (system r = system old \<or> system r = system new)"
    by simp
qed


text \<open>
  The theorem at a request served after the status block and before the pressure block.
\<close>

theorem reader_observes_whole_field_groups_witness:
  "(let r = latest_telemetry\<lparr>status := ''live'', timestamp := Some ''T1'', system := \<lparr>cpu = Finite 3, gpu_temp = Finite 40\<rparr>\<rparr>;
        new = run_locked (fst (ingest decimal_float (live_env [''MS5611 1 2 3''] ''T1'' 1000))) latest_telemetry
    in r \<in> set (interleave [Reader_block, Reader_block, Get_request, Reader_block]
            (fst (ingest decimal_float (live_env [''MS5611 1 2 3''] ''T1'' 1000))) latest_telemetry) \<and>
       ((status r = status latest_telemetry \<and> timestamp r = timestamp latest_telemetry) \<or>
        (status r = status new \<and> timestamp r = timestamp new)) \<and>
       (ms5611 r = ms5611 latest_telemetry \<or> ms5611 r = ms5611 new) \<and>
       (mpu6050 r = mpu6050 latest_telemetry \<or> mpu6050 r = mpu6050 new) \<and>
       (tmp r = tmp latest_telemetry \<or> tmp r = tmp new) \<and>
       (system r = system latest_telemetry \<or> system r = system new))"
proof -
  let ?r = "latest_telemetry\<lparr>status := ''live'', timestamp := Some ''T1'', system := \<lparr>cpu = Finite 3, gpu_temp = Finite 40\<rparr>\<rparr>"
  let ?us = "fst (ingest decimal_float (live_env [''MS5611 1 2 3''] ''T1'' 1000))"
  have mem: "?r \<in> set (interleave [Reader_block, Reader_block, Get_request, Reader_block]
      ?us latest_telemetry)"
    by code_simp
  show ?thesis
    unfolding Let_def
    by (rule conjI[OF mem reader_observes_whole_field_groups[OF refl, rule_format, OF mem]])
qed

text \<open>
  C1 as stated fails: that request reads the new status and time stamp with the old
  pressure reading, which is neither the snapshot before the cycle nor the one after it.
\<close>

theorem reader_observes_torn_snapshot:
  "interleave [Reader_block, Reader_block, Get_request, Reader_block]
      (fst (ingest decimal_float (live_env [''MS5611 1 2 3''] ''T1'' 1000))) latest_telemetry =
     [latest_telemetry\<lparr>status := ''live'', timestamp := Some ''T1'', system := \<lparr>cpu = Finite 3, gpu_temp = Finite 40\<rparr>\<rparr>] \<and>
   ms5611 (latest_telemetry\<lparr>status := ''live'', timestamp := Some ''T1'', system := \<lparr>cpu = Finite 3, gpu_temp = Finite 40\<rparr>\<rparr>) = \<lparr>temp = Finite 0, pressure = Finite 0, altitude = Finite 0\<rparr> \<and>
   run_locked (fst (ingest decimal_float (live_env [''MS5611 1 2 3''] ''T1'' 1000))) latest_telemetry =
     latest_telemetry\<lparr>status := ''live'', timestamp := Some ''T1'',
       ms5611 := \<lparr>temp = Finite 1, pressure = Finite 2, altitude = Finite 3\<rparr>,
       system := \<lparr>cpu = Finite 3, gpu_temp = Finite 40\<rparr>\<rparr> \<and>
   latest_telemetry\<lparr>status := ''live'', timestamp := Some ''T1'', system := \<lparr>cpu = Finite 3, gpu_temp = Finite 40\<rparr>\<rparr> \<noteq> latest_telemetry \<and>
   latest_telemetry\<lparr>status := ''live'', timestamp := Some ''T1'', system := \<lparr>cpu = Finite 3, gpu_temp = Finite 40\<rparr>\<rparr> \<noteq>
     run_locked (fst (ingest decimal_float (live_env [''MS5611 1 2 3''] ''T1'' 1000))) latest_telemetry"
  by code_simp

end
